(* ===== verification/Prelude.thy ===== *)
theory Prelude
  imports Main "HOL-Library.Word" "HOL-Library.Char_ord" "HOL-Library.List_Lexorder"
    "HOL-Library.Sublist"
begin

text \<open>
  What every component of the development shares: the types of bytes and byte arrays,
  the \<^verbatim>\<open>ctype.h\<close> classes of a byte, a few facts on lists, and the named collections
  of lemmas.

  A C++ \<^verbatim>\<open>char\<close> is an Isabelle \<^typ>\<open>char\<close>, which is exactly eight bits. A
  \<^verbatim>\<open>QByteArray\<close> is the list of its bytes where the program only looks at its
  contents, and a \<open>qbytes\<close> where the program also asks \<^verbatim>\<open>isNull()\<close>: the null
  array is \<^const>\<open>None\<close>, which has no bytes and compares equal to the empty array.

  The character classes are those of the C locale, and of every UTF-8 locale, in which
  no byte above 127 belongs to a class.
\<close>

type_synonym bytes = "char list"
type_synonym qbytes = "char list option"

named_theorems ctype "definitions of the character classes"
named_theorems step_defs "definitions of the operations that automation unfolds together"

section \<open>Bytes\<close>

abbreviation code :: "char \<Rightarrow> nat" where
  "code c \<equiv> of_char c"

abbreviation NUL :: char where
  "NUL \<equiv> CHR 0x00"

abbreviation NL :: char where
  "NL \<equiv> CHR 0x0A"

abbreviation BEL :: char where
  "BEL \<equiv> CHR 0x07"

abbreviation DEL :: char where
  "DEL \<equiv> CHR 0x7F"

abbreviation DQUOTE :: char where
  "DQUOTE \<equiv> CHR 0x22"

abbreviation BSLASH :: char where
  "BSLASH \<equiv> CHR 0x5C"

definition iscntrl :: "char \<Rightarrow> bool" where [ctype]:
  "iscntrl c \<longleftrightarrow> code c < 32 \<or> code c = 127"

definition isspace :: "char \<Rightarrow> bool" where [ctype]:
  "isspace c \<longleftrightarrow> code c = 32 \<or> 9 \<le> code c \<and> code c \<le> 13"

definition isdigit :: "char \<Rightarrow> bool" where [ctype]:
  "isdigit c \<longleftrightarrow> 48 \<le> code c \<and> code c \<le> 57"

text \<open>
  Arithmetic on a byte: C promotes to \<^verbatim>\<open>int\<close>, computes there and truncates the result
  to eight bits on assignment.
\<close>

definition byte_plus :: "char \<Rightarrow> nat \<Rightarrow> char" where
  "byte_plus c n = char_of (code c + n)"

definition byte_minus :: "char \<Rightarrow> nat \<Rightarrow> char" where
  "byte_minus c n = char_of (code c + (256 - n mod 256))"

lemma code_consts:
  "code NUL = 0" "code NL = 10" "code BEL = 7" "code DEL = 127" "code DQUOTE = 34" "code BSLASH = 92"
  by simp_all

lemma code_inject: "code c = code d \<longleftrightarrow> c = d"
  by simp

lemma eq_code_iff: "c = NUL \<longleftrightarrow> code c = 0" "c = NL \<longleftrightarrow> code c = 10" "c = BEL \<longleftrightarrow> code c = 7"
  "c = DEL \<longleftrightarrow> code c = 127" "c = DQUOTE \<longleftrightarrow> code c = 34" "c = BSLASH \<longleftrightarrow> code c = 92"
  using code_inject [of c NUL] code_inject [of c NL] code_inject [of c BEL] code_inject [of c DEL]
    code_inject [of c DQUOTE] code_inject [of c BSLASH]
  by simp_all

lemma code_byte_plus: "code (byte_plus c n) = (code c + n) mod 256"
  by (simp add: byte_plus_def)

lemma mod_256_cancel:
  assumes "(a :: nat) < 256"
  shows "(a + n + (256 - n mod 256)) mod 256 = a"
proof -
  define q r where "q = n div 256" and "r = n mod 256"
  have n: "n = q * 256 + r" and r: "r < 256" by (simp_all add: q_def r_def)
  have "a + n + (256 - n mod 256) = a + (q + 1) * 256"
    using n r by simp
  then show ?thesis using assms by (simp only: mod_mult_self1) simp
qed

lemma byte_minus_plus [simp]: "byte_minus (byte_plus c n) n = c"
proof -
  have "char_of (code (byte_plus c n) + (256 - n mod 256)) =
      (char_of (code c + n + (256 - n mod 256)) :: char)"
    by (simp only: char_of_quasi_inj code_byte_plus mod_add_left_eq)
  also have "\<dots> = char_of (code c)"
    by (simp only: char_of_quasi_inj mod_256_cancel [OF nat_of_char_less_256] of_char_mod_256)
  finally show ?thesis by (simp add: byte_minus_def)
qed

lemma cntrl_consts [simp]: "iscntrl NUL" "iscntrl NL" "iscntrl DEL" "iscntrl BEL"
  "\<not> iscntrl DQUOTE" "\<not> iscntrl BSLASH"
  by (simp_all add: ctype)

lemma space_consts [simp]: "\<not> isspace NUL" "isspace NL" "\<not> isspace DQUOTE" "\<not> isspace BSLASH"
  by (simp_all add: ctype)

lemma digit_consts [simp]: "\<not> isdigit NUL" "\<not> isdigit NL" "\<not> isdigit DQUOTE" "\<not> isdigit BSLASH"
  by (simp_all add: ctype)

lemma digit_not_cntrl: "isdigit c \<Longrightarrow> \<not> iscntrl c"
  and digit_not_space: "isdigit c \<Longrightarrow> \<not> isspace c"
  by (auto simp: ctype)

section \<open>Null and empty byte arrays\<close>

definition bytes_of :: "qbytes \<Rightarrow> bytes" where
  "bytes_of q = (case q of None \<Rightarrow> [] | Some b \<Rightarrow> b)"

definition isNull :: "qbytes \<Rightarrow> bool" where
  "isNull q \<longleftrightarrow> q = None"

definition isEmpty :: "qbytes \<Rightarrow> bool" where
  "isEmpty q \<longleftrightarrow> bytes_of q = []"

text \<open>\<^verbatim>\<open>operator==\<close> compares sizes and contents, so null equals empty.\<close>

definition qeq :: "qbytes \<Rightarrow> qbytes \<Rightarrow> bool" where
  "qeq p q \<longleftrightarrow> bytes_of p = bytes_of q"

lemma bytes_of_simps [simp]: "bytes_of None = []" "bytes_of (Some b) = b"
  by (simp_all add: bytes_of_def)

lemma isNull_simps [simp]: "isNull None" "\<not> isNull (Some b)"
  by (simp_all add: isNull_def)

lemma not_isNull_iff: "\<not> isNull q \<longleftrightarrow> (\<exists>b. q = Some b)"
  by (cases q) simp_all

lemma isEmpty_simps [simp]: "isEmpty None" "isEmpty (Some b) \<longleftrightarrow> b = []"
  by (simp_all add: isEmpty_def)

section \<open>Lists\<close>

lemma option_eqI: "(\<And>w. a = Some w \<longleftrightarrow> b = Some w) \<Longrightarrow> a = b"
  by (cases a; cases b) auto

lemma drop_eq_ConsD: "drop n xs = y # ys \<Longrightarrow> n < length xs \<and> xs ! n = y \<and> drop (Suc n) xs = ys"
  by (metis Cons_nth_drop_Suc drop_all leI list.distinct(1) list.inject)

lemma drop_eq_Nil_le: "drop n xs = [] \<Longrightarrow> length xs \<le> n"
  by simp

lemma sorted_wrt_filter': "sorted_wrt P xs \<Longrightarrow> sorted_wrt P (filter Q xs)"
  by (induction xs) auto

lemma takeWhile_append_stop: "\<forall>x \<in> set xs. P x \<Longrightarrow> \<not> P y \<Longrightarrow> takeWhile P (xs @ y # ys) = xs"
  by (induction xs) auto

lemma dropWhile_append_stop: "\<forall>x \<in> set xs. P x \<Longrightarrow> \<not> P y \<Longrightarrow> dropWhile P (xs @ y # ys) = y # ys"
  by (induction xs) auto

lemma append_stop_eq:
  "c \<notin> set a \<Longrightarrow> c \<notin> set a' \<Longrightarrow> a @ c # b = a' @ c # b' \<longleftrightarrow> a = a' \<and> b = b'"
proof (induction a arbitrary: a')
  case Nil
  then show ?case by (cases a') auto
next
  case (Cons x a)
  then show ?case by (cases a') auto
qed

lemma prefix_take_iff: "prefix xs ys \<longleftrightarrow> take (length xs) ys = xs"
  unfolding prefix_def by (metis append_eq_conv_conj)

section \<open>Reading from a file descriptor\<close>

text \<open>
  The answer of \<^verbatim>\<open>read\<close> and \<^verbatim>\<open>recv\<close> as a function of the number of bytes asked for:
  some bytes, a failure with \<^verbatim>\<open>errno\<close> set to \<^verbatim>\<open>EINTR\<close>, any other failure, or the end of
  the file. \<open>recv_ok\<close> is what the system promises: at least one and at most as many bytes as
  were asked for.
\<close>

datatype recv_result = Received bytes | RecvEINTR | RecvError | RecvEOF

definition recv_ok :: "(nat \<Rightarrow> recv_result) \<Rightarrow> bool" where
  "recv_ok recv \<longleftrightarrow> (\<forall>n d. recv n = Received d \<longrightarrow> 0 < length d \<and> length d \<le> n)"

text \<open>A descriptor on which the bytes \<open>d\<close> wait.\<close>

definition recv_of :: "bytes \<Rightarrow> nat \<Rightarrow> recv_result" where
  "recv_of d n = (if d = [] then RecvError else if n = 0 then RecvEOF else Received (take n d))"

lemma recv_ok_of [simp]: "recv_ok (recv_of d)"
  by (simp add: recv_ok_def recv_of_def)

lemma recv_of_all: "d \<noteq> [] \<Longrightarrow> length d \<le> n \<Longrightarrow> recv_of d n = Received d"
  by (cases n) (auto simp: recv_of_def)

section \<open>The status of a child\<close>

text \<open>The macros of \<^verbatim>\<open>sys/wait.h\<close>.\<close>

unbundle bit_operations_syntax

definition WIFEXITED :: "int \<Rightarrow> bool" where
  "WIFEXITED status \<longleftrightarrow> status AND 127 = 0"

definition WEXITSTATUS :: "int \<Rightarrow> int" where
  "WEXITSTATUS status = drop_bit 8 (status AND 65280)"

lemma WEXITSTATUS_range: "0 \<le> WEXITSTATUS st \<and> WEXITSTATUS st \<le> 255"
proof -
  define a where "a = st AND 65280"
  have a: "a \<le> 65280" "0 \<le> a" by (simp_all add: a_def)
  have "a div 256 \<le> 65280 div 256" by (rule zdiv_mono1) (simp_all add: a)
  with a show ?thesis
    by (simp add: WEXITSTATUS_def drop_bit_eq_div pos_imp_zdiv_nonneg_iff flip: a_def)
qed

section \<open>State machines\<close>

text \<open>
  A machine with its start states, its steps and a candidate for an invariant: what holds at the
  start and is kept by every step holds in every state that is reached.
\<close>

locale machine =
  fixes start :: "'s \<Rightarrow> bool"
    and step :: "'s \<Rightarrow> 's \<Rightarrow> bool"
    and inv :: "'s \<Rightarrow> bool"
  assumes inv_start: "start s \<Longrightarrow> inv s"
    and inv_step: "step s t \<Longrightarrow> inv s \<Longrightarrow> inv t"
begin

lemma inv_steps: "step\<^sup>*\<^sup>* s t \<Longrightarrow> inv s \<Longrightarrow> inv t"
  by (induction rule: rtranclp_induct) (auto intro: inv_step)

lemma inv_reached: "start s \<Longrightarrow> step\<^sup>*\<^sup>* s t \<Longrightarrow> inv t"
  using inv_steps inv_start by blast

end

end
