(* ===== verification/Qt_Bytes.thy ===== *)
theory Qt_Bytes
  imports Prelude
begin

text \<open>
  The \<^verbatim>\<open>QByteArray\<close> operations the program calls, on lists of bytes and as the Qt
  documentation describes them: searching (\<^verbatim>\<open>indexOf\<close>, \<^verbatim>\<open>lastIndexOf\<close>,
  \<^verbatim>\<open>contains\<close>, \<^verbatim>\<open>startsWith\<close>), cutting (\<^verbatim>\<open>left\<close>, \<^verbatim>\<open>mid\<close>,
  \<^verbatim>\<open>truncate\<close>, \<^verbatim>\<open>remove\<close>, \<^verbatim>\<open>trimmed\<close>) and decimal conversion
  (\<^verbatim>\<open>setNum\<close>, \<^verbatim>\<open>toInt\<close>). Positions are integers, and -1 is "not found", as in Qt.
  Number conversion round-trips on the range of a C \<^verbatim>\<open>int\<close> (\<open>toInt_setNum\<close>).
\<close>

section \<open>Searching\<close>

fun find_index :: "('a \<Rightarrow> bool) \<Rightarrow> 'a list \<Rightarrow> nat option" where
  "find_index P [] = None"
| "find_index P (x # xs) = (if P x then Some 0 else map_option Suc (find_index P xs))"

text \<open>\<^verbatim>\<open>fill\<close> overwrites every byte and keeps the length.\<close>

definition qfill :: "char \<Rightarrow> bytes \<Rightarrow> bytes" where
  "qfill c s = replicate (length s) c"

lemma set_qfill [simp]: "set (qfill c s) \<subseteq> {c}" "length (qfill c s) = length s"
  by (auto simp: qfill_def)

definition indexOf_char :: "bytes \<Rightarrow> char \<Rightarrow> int" where
  "indexOf_char s c = (case find_index (\<lambda>x. x = c) s of None \<Rightarrow> -1 | Some i \<Rightarrow> int i)"

text \<open>\<^verbatim>\<open>indexOf(c, from)\<close>, for a position from 0 on.\<close>

definition indexOf_char_from :: "bytes \<Rightarrow> char \<Rightarrow> nat \<Rightarrow> int" where
  "indexOf_char_from s c from =
     (let i = indexOf_char (drop from s) c in if i = -1 then -1 else int from + i)"

definition occurs_at :: "bytes \<Rightarrow> bytes \<Rightarrow> nat \<Rightarrow> bool" where
  "occurs_at s t i \<longleftrightarrow> take (length t) (drop i s) = t"

definition indexOf :: "bytes \<Rightarrow> bytes \<Rightarrow> int" where
  "indexOf s t = (case filter (occurs_at s t) [0..<Suc (length s)] of [] \<Rightarrow> -1 | i # _ \<Rightarrow> int i)"

definition lastIndexOf :: "bytes \<Rightarrow> bytes \<Rightarrow> int" where
  "lastIndexOf s t = (case filter (occurs_at s t) (rev [0..<Suc (length s)]) of [] \<Rightarrow> -1 | i # _ \<Rightarrow> int i)"

definition contains :: "bytes \<Rightarrow> bytes \<Rightarrow> bool" where
  "contains s t \<longleftrightarrow> indexOf s t \<noteq> -1"

definition startsWith :: "bytes \<Rightarrow> bytes \<Rightarrow> bool" where
  "startsWith s t \<longleftrightarrow> take (length t) s = t"

lemma find_index_None [simp]: "find_index P xs = None \<longleftrightarrow> (\<forall>x \<in> set xs. \<not> P x)"
  by (induction xs) auto

lemma find_index_SomeD: "find_index P xs = Some i \<Longrightarrow> i < length xs \<and> P (xs ! i) \<and> (\<forall>j < i. \<not> P (xs ! j))"
proof (induction xs arbitrary: i)
  case (Cons x xs)
  then show ?case by (auto split: if_splits simp: less_Suc_eq_0_disj)
qed simp

lemma find_index_Some_split:
  "find_index P xs = Some i \<Longrightarrow> xs = take i xs @ xs ! i # drop (Suc i) xs \<and> (\<forall>x \<in> set (take i xs). \<not> P x)"
  using find_index_SomeD [of P xs i] by (auto simp: id_take_nth_drop [symmetric] in_set_conv_nth)

lemma find_index_append_stop: "\<forall>x \<in> set xs. \<not> P x \<Longrightarrow> P y \<Longrightarrow> find_index P (xs @ y # ys) = Some (length xs)"
  by (induction xs) auto

lemma find_index_append_Some: "find_index P xs = Some i \<Longrightarrow> find_index P (xs @ ys) = Some i"
  by (induction xs arbitrary: i) (auto split: if_splits)

lemma indexOf_char_neg [simp]: "indexOf_char s c = -1 \<longleftrightarrow> c \<notin> set s"
proof (cases "find_index (\<lambda>x. x = c) s")
  case None
  then have "c \<notin> set s" by auto
  then show ?thesis using None by (simp add: indexOf_char_def del: find_index_None)
next
  case (Some i)
  then have "s ! i = c" "i < length s" using find_index_SomeD [OF Some] by auto
  then show ?thesis using Some by (auto simp: indexOf_char_def)
qed

lemma indexOf_char_first: "c \<notin> set p \<Longrightarrow> indexOf_char (p @ c # q) c = int (length p)"
  by (subst indexOf_char_def, subst find_index_append_stop) auto

lemma indexOf_char_split:
  assumes "indexOf_char s c = n" "n \<noteq> -1"
  shows "0 \<le> n" and "nat n < length s" and "s ! nat n = c" and "c \<notin> set (take (nat n) s)"
  using assms find_index_SomeD [of "\<lambda>x. x = c" s "nat n"]
  by (auto simp: indexOf_char_def in_set_conv_nth split: option.splits)

lemma indexOf_char_less: "\<not> indexOf_char s c < 0 \<Longrightarrow> nat (indexOf_char s c) < length s"
  by (rule indexOf_char_split(2) [OF refl]) linarith

lemma occurs_at_0: "occurs_at s t 0 \<longleftrightarrow> prefix t s"
  by (auto simp: occurs_at_def prefix_def) (metis append_take_drop_id)

lemma ex_occurs_at: "(\<exists>i \<le> length s. occurs_at s t i) \<longleftrightarrow> sublist t s"
proof
  assume "\<exists>i \<le> length s. occurs_at s t i"
  then obtain i where "take (length t) (drop i s) = t" by (auto simp: occurs_at_def)
  then have "s = take i s @ t @ drop (length t) (drop i s)"
    by (metis append_take_drop_id)
  then show "sublist t s" by (metis sublist_def)
next
  assume "sublist t s"
  then obtain p q where "s = p @ t @ q" by (auto simp: sublist_def)
  then have "length p \<le> length s \<and> occurs_at s t (length p)" by (simp add: occurs_at_def)
  then show "\<exists>i \<le> length s. occurs_at s t i" by blast
qed

lemma filter_upt_Nil: "filter Q [0..<Suc n] = [] \<longleftrightarrow> \<not> (\<exists>i \<le> n. Q i)"
  by (simp only: filter_empty_conv set_upt) auto

lemma indexOf_nonneg: "0 \<le> indexOf s t \<longleftrightarrow> sublist t s"
proof -
  have "0 \<le> indexOf s t \<longleftrightarrow> filter (occurs_at s t) [0..<Suc (length s)] \<noteq> []"
    unfolding indexOf_def by (auto split: list.splits simp del: upt_Suc)
  also have "\<dots> \<longleftrightarrow> sublist t s"
    by (simp only: filter_upt_Nil ex_occurs_at) simp
  finally show ?thesis .
qed

lemma indexOf_ge_minus1: "-1 \<le> indexOf s t"
  unfolding indexOf_def by (auto split: list.splits simp del: upt_Suc)

lemma contains_iff: "contains s t \<longleftrightarrow> sublist t s"
  using indexOf_nonneg [of s t] indexOf_ge_minus1 [of s t] unfolding contains_def by linarith

lemma indexOf_0: "indexOf s t = 0 \<longleftrightarrow> prefix t s"
proof -
  have upt: "[0..<Suc (length s)] = 0 # [1..<Suc (length s)]"
    using upt_conv_Cons [of 0 "Suc (length s)"] by (simp del: upt_Suc)
  show ?thesis
  proof (cases "occurs_at s t 0")
    case True
    then show ?thesis by (simp add: indexOf_def upt occurs_at_0 del: upt_Suc)
  next
    case False
    have "indexOf s t \<noteq> 0"
    proof (cases "filter (occurs_at s t) [1..<Suc (length s)]")
      case Nil
      then show ?thesis using False unfolding indexOf_def upt by (simp del: upt_Suc)
    next
      case (Cons i rest)
      then have "i \<in> set [1..<Suc (length s)]" by (metis filter_is_subset list.set_intros(1) subsetD)
      then have "0 < i" by auto
      then show ?thesis using False Cons unfolding indexOf_def upt by (simp del: upt_Suc)
    qed
    then show ?thesis using False by (simp add: occurs_at_0)
  qed
qed

lemma startsWith_iff: "startsWith s t \<longleftrightarrow> prefix t s"
  using occurs_at_0 [of s t] by (simp add: startsWith_def occurs_at_def)

section \<open>Cutting\<close>

definition left :: "bytes \<Rightarrow> int \<Rightarrow> bytes" where
  "left s n = take (nat n) s"

definition mid :: "bytes \<Rightarrow> int \<Rightarrow> bytes" where
  "mid s pos = drop (nat pos) s"

text \<open>\<^verbatim>\<open>mid(pos, len)\<close> with a negative length is everything from the position on.\<close>

definition mid_len :: "bytes \<Rightarrow> int \<Rightarrow> int \<Rightarrow> bytes" where
  "mid_len s pos len = (if len < 0 then drop (nat pos) s else take (nat len) (drop (nat pos) s))"

text \<open>\<^verbatim>\<open>truncate\<close> does nothing beyond the end, and a negative position empties the array.\<close>

definition qtruncate :: "bytes \<Rightarrow> int \<Rightarrow> bytes" where
  "qtruncate s pos = (if pos < int (length s) then take (nat pos) s else s)"

definition remove_front :: "bytes \<Rightarrow> nat \<Rightarrow> bytes" where
  "remove_front s n = drop n s"

definition trimmed :: "bytes \<Rightarrow> bytes" where
  "trimmed s = rev (dropWhile isspace (rev (dropWhile isspace s)))"

text \<open>A C string read from an array ends before its first NUL.\<close>

definition c_str :: "bytes \<Rightarrow> bytes" where
  "c_str s = takeWhile (\<lambda>c. c \<noteq> NUL) s"

lemma c_str_id: "NUL \<notin> set s \<Longrightarrow> c_str s = s"
  by (auto simp: c_str_def takeWhile_eq_all_conv)

section \<open>Decimal numbers\<close>

definition digit_char :: "nat \<Rightarrow> char" where
  "digit_char d = char_of (48 + d)"

fun dec_nat :: "nat \<Rightarrow> bytes" where
  "dec_nat n = (if n < 10 then [digit_char n] else dec_nat (n div 10) @ [digit_char (n mod 10)])"

declare dec_nat.simps [simp del]

text \<open>\<^verbatim>\<open>setNum(int)\<close> and \<^verbatim>\<open>number(int)\<close>: base 10, a minus sign for negative numbers.\<close>

definition setNum :: "int \<Rightarrow> bytes" where
  "setNum i = (if i < 0 then ''-'' @ dec_nat (nat (- i)) else dec_nat (nat i))"

definition dec_value :: "bytes \<Rightarrow> nat" where
  "dec_value s = foldl (\<lambda>n c. 10 * n + (code c - 48)) 0 s"

definition int_max :: int where
  "int_max = 2147483647"

definition in_int :: "int \<Rightarrow> bool" where
  "in_int i \<longleftrightarrow> - int_max - 1 \<le> i \<and> i \<le> int_max"

text \<open>
  \<^verbatim>\<open>toInt()\<close>: surrounding whitespace is ignored, an optional sign, at least one digit;
  0 where the text is not a number or the number does not fit an \<^verbatim>\<open>int\<close>.
\<close>

definition is_dec :: "bytes \<Rightarrow> bool" where
  "is_dec s \<longleftrightarrow> s \<noteq> [] \<and> list_all isdigit s"

definition fit_int :: "int \<Rightarrow> int" where
  "fit_int i = (if in_int i then i else 0)"

definition toInt :: "bytes \<Rightarrow> int" where
  "toInt s =
     (let t = trimmed s in
      if is_dec t then fit_int (int (dec_value t))
      else if t \<noteq> [] \<and> hd t = CHR ''-'' \<and> is_dec (tl t) then fit_int (- int (dec_value (tl t)))
      else if t \<noteq> [] \<and> hd t = CHR ''+'' \<and> is_dec (tl t) then fit_int (int (dec_value (tl t)))
      else 0)"

text \<open>
  \<^verbatim>\<open>atoi\<close>: white space, a sign, digits; what follows is ignored.
\<close>

definition atoi :: "bytes \<Rightarrow> int" where
  "atoi s =
     (let s = dropWhile isspace s;
          digits = (\<lambda>s. int (dec_value (takeWhile isdigit s)))
      in case s of
           [] \<Rightarrow> 0
         | c # cs \<Rightarrow> if c = CHR ''-'' then - digits cs else if c = CHR ''+'' then digits cs else digits s)"

lemma code_digit_char: "d < 10 \<Longrightarrow> code (digit_char d) = 48 + d"
  by (simp add: digit_char_def)

lemma isdigit_digit_char: "d < 10 \<Longrightarrow> isdigit (digit_char d)"
  by (simp add: isdigit_def code_digit_char)

lemma dec_nat_digits: "\<forall>c \<in> set (dec_nat n). isdigit c"
proof (induction n rule: dec_nat.induct)
  case (1 n)
  then show ?case
    by (cases "n < 10") (auto simp: dec_nat.simps [of n] isdigit_digit_char)
qed

lemma dec_nat_nonempty [simp]: "dec_nat n \<noteq> []"
  by (subst dec_nat.simps) simp

lemma is_dec_dec_nat: "is_dec (dec_nat n)"
  by (simp add: is_dec_def list_all_iff dec_nat_digits)

lemma dec_value_dec_nat [simp]: "dec_value (dec_nat n) = n"
proof (induction n rule: dec_nat.induct)
  case (1 n)
  show ?case
  proof (cases "n < 10")
    case True
    then show ?thesis by (simp add: dec_nat.simps [of n] dec_value_def code_digit_char)
  next
    case False
    then have "dec_value (dec_nat (n div 10)) = n div 10" using 1 by simp
    then have "dec_value (dec_nat n) = 10 * (n div 10) + n mod 10"
      using False by (simp add: dec_nat.simps [of n] dec_value_def code_digit_char)
    then show ?thesis by simp
  qed
qed

lemma trimmed_id:
  assumes "\<forall>c \<in> set s. \<not> isspace c"
  shows "trimmed s = s"
proof -
  have *: "dropWhile isspace t = t" if "\<forall>c \<in> set t. \<not> isspace c" for t
    using that by (cases t) auto
  show ?thesis using assms * [of s] * [of "rev s"] by (simp add: trimmed_def)
qed

lemma toInt_digits:
  assumes "is_dec s"
  shows "toInt s = fit_int (int (dec_value s))"
proof -
  have "\<forall>c \<in> set s. \<not> isspace c"
    using assms digit_not_space by (auto simp: is_dec_def list_all_iff)
  then show ?thesis using assms by (simp add: toInt_def trimmed_id)
qed

lemma toInt_setNum: "in_int i \<Longrightarrow> toInt (setNum i) = i"
proof -
  assume i: "in_int i"
  show ?thesis
  proof (cases "i < 0")
    case False
    then show ?thesis using i by (simp add: setNum_def toInt_digits is_dec_dec_nat fit_int_def)
  next
    case True
    have "\<forall>c \<in> set (setNum i). \<not> isspace c"
      using True dec_nat_digits digit_not_space by (auto simp: setNum_def isspace_def)
    moreover have "\<not> is_dec (setNum i)"
      using True by (simp add: setNum_def is_dec_def isdigit_def)
    moreover have "setNum i \<noteq> [] \<and> hd (setNum i) = CHR ''-'' \<and> tl (setNum i) = dec_nat (nat (- i))"
      using True by (simp add: setNum_def)
    ultimately show ?thesis using i True
      by (simp add: toInt_def Let_def trimmed_id is_dec_dec_nat fit_int_def)
  qed
qed

lemma toInt_in_int: "in_int (toInt s)"
  by (simp add: toInt_def Let_def fit_int_def in_int_def int_max_def)

lemma setNum_nonempty [simp]: "setNum i \<noteq> []"
  by (simp add: setNum_def)

lemma setNum_nat_digits: "0 \<le> i \<Longrightarrow> \<forall>c \<in> set (setNum i). isdigit c"
  by (simp add: setNum_def dec_nat_digits)

lemma toInt_nonneg_digits: "is_dec s \<Longrightarrow> 0 \<le> toInt s"
  by (simp add: toInt_digits fit_int_def)

lemma dec_nat_length: "length (dec_nat n) \<le> Suc n"
proof (induction n rule: dec_nat.induct)
  case (1 n)
  then show ?case by (cases "n < 10") (auto simp: dec_nat.simps [of n])
qed

lemma setNum_length: "0 \<le> i \<Longrightarrow> length (setNum i) \<le> Suc (nat i)"
  by (simp add: setNum_def dec_nat_length)

end
