(* ===== verification/Lexer.thy ===== *)
theory Lexer
  imports Qt_Bytes "HOL-Library.Monad_Syntax"
begin

text \<open>
  The lexer of the daemon's protocol, \<^verbatim>\<open>src/src/kdesud/lexer.cpp\<close> and
  \<^verbatim>\<open>lexer.h\<close>. A \<open>lexer\<close> record holds the input, the value of the last token and
  the read position, as the class does. Every read goes through \<open>next_byte\<close>, which
  models \<^verbatim>\<open>c = m_Input[in++]\<close>: inside the array it is the byte, at its end the NUL
  that Qt keeps after the data, and beyond that \<^const>\<open>None\<close>, an out-of-bounds read.
  The loops of \<^verbatim>\<open>lex()\<close> are functions of their own with a termination measure.

  The lemmas show that \<open>lex\<close> never reads out of bounds from a position within the
  input (\<open>lex_within\<close>), that it always advances, and that it computes the same tokens as
  the list function \<open>ref_lex\<close> on the remaining input (\<open>lex_ref_lex\<close>).
\<close>

section \<open>State and tokens\<close>

record lexer =
  m_Input :: bytes
  m_Output :: bytes
  lex_in :: nat

text \<open>The constructor.\<close>

definition new_lexer :: "bytes \<Rightarrow> lexer" where
  "new_lexer input = \<lparr>m_Input = input, m_Output = [], lex_in = 0\<rparr>"

text \<open>The destructor erases the buffers, of which the input and the last string have held passwords.\<close>

definition destroy_lexer :: "lexer \<Rightarrow> lexer" where
  "destroy_lexer l = l\<lparr>m_Input := qfill (CHR ''x'') (m_Input l), m_Output := qfill (CHR ''x'') (m_Output l)\<rparr>"

lemma destroy_lexer_erases: "set (m_Input (destroy_lexer l)) \<union> set (m_Output (destroy_lexer l)) \<subseteq> {CHR ''x''}"
  by (simp add: destroy_lexer_def)

definition lval :: "lexer \<Rightarrow> bytes" where
  "lval l = m_Output l"

text \<open>\<open>Tok_newline\<close> is the character \<^verbatim>\<open>'\n'\<close> that \<^verbatim>\<open>lex()\<close> returns as such.\<close>

datatype token = Tok_newline | Tok_none | Tok_exec | Tok_pass | Tok_delCmd | Tok_ping | Tok_str | Tok_num
  | Tok_stop | Tok_set | Tok_get | Tok_delVar | Tok_delGroup | Tok_host | Tok_prio | Tok_sched
  | Tok_getKeys | Tok_chkGroup | Tok_delSpecialKey | Tok_exit

section \<open>Reading\<close>

definition byte_at :: "bytes \<Rightarrow> nat \<Rightarrow> char option" where
  "byte_at s i = (if i < length s then Some (s ! i) else if i = length s then Some NUL else None)"

definition next_byte :: "lexer \<Rightarrow> (char \<times> lexer) option" where
  "next_byte l = (case byte_at (m_Input l) (lex_in l) of
     None \<Rightarrow> None
   | Some c \<Rightarrow> Some (c, l\<lparr>lex_in := Suc (lex_in l)\<rparr>))"

definition emit :: "char \<Rightarrow> lexer \<Rightarrow> lexer" where
  "emit c l = l\<lparr>m_Output := m_Output l @ [c]\<rparr>"

definition step_back :: "lexer \<Rightarrow> lexer" where
  "step_back l = l\<lparr>lex_in := lex_in l - 1\<rparr>"

definition unread :: "lexer \<Rightarrow> nat" where
  "unread l = Suc (length (m_Input l)) - lex_in l"

lemma next_byte_unread [termination_simp]: "next_byte l = Some (c, l') \<Longrightarrow> unread l' < unread l"
  by (auto simp: next_byte_def byte_at_def unread_def split: option.splits if_splits)

lemma unread_emit [simp, termination_simp]: "unread (emit c l) = unread l"
  by (simp add: unread_def emit_def)

section \<open>The loops\<close>

text \<open>\<^verbatim>\<open>while (isspace(c = m_Input[in++]));\<close>\<close>

function skip_spaces :: "lexer \<Rightarrow> (char \<times> lexer) option" where
  "skip_spaces l = (case next_byte l of
     None \<Rightarrow> None
   | Some (c, l') \<Rightarrow> if isspace c then skip_spaces l' else Some (c, l'))"
  by pat_completeness auto
termination by (relation "measure unread") (auto intro: next_byte_unread)

text \<open>\<^verbatim>\<open>while (isdigit(c = m_Input[in++])) m_Output += c;\<close>\<close>

function lex_digits :: "lexer \<Rightarrow> lexer option" where
  "lex_digits l = (case next_byte l of
     None \<Rightarrow> None
   | Some (c, l') \<Rightarrow> if isdigit c then lex_digits (emit c l') else Some l')"
  by pat_completeness auto
termination by (relation "measure unread") (auto intro: next_byte_unread)

text \<open>
  The body of the quoted-string loop: an escape sequence after its backslash, or a plain
  character. \<^const>\<open>Inl\<close> is the early \<^verbatim>\<open>return Tok_none\<close>, \<^const>\<open>Inr\<close> the end of
  the body, with the character appended.
\<close>

definition lex_escape :: "lexer \<Rightarrow> (lexer + lexer) option" where
  "lex_escape l = do {
     (c, l1) \<leftarrow> next_byte l;
     if iscntrl c then Some (Inl l1)
     else if c = CHR ''^'' then do {
       (c', l2) \<leftarrow> next_byte l1;
       if c' = DQUOTE \<or> iscntrl c' then Some (Inl l2)
       else Some (Inr (emit (byte_minus c' 64) l2))
     }
     else Some (Inr (emit c l1))
   }"

definition lex_quoted_body :: "char \<Rightarrow> lexer \<Rightarrow> (lexer + lexer) option" where
  "lex_quoted_body c l = (if c = BSLASH then lex_escape l else Some (Inr (emit c l)))"

lemma lex_quoted_body_unread: "lex_quoted_body c l = Some (Inr l') \<Longrightarrow> unread l' \<le> unread l"
  by (auto simp: lex_quoted_body_def lex_escape_def bind_eq_Some_conv dest!: next_byte_unread split: if_splits)

text \<open>
  The loop \<^verbatim>\<open>while ((c != '"') && !iscntrl(c))\<close> with the character read last; its value
  is the early return or that last character and the lexer.
\<close>

function lex_quoted :: "char \<Rightarrow> lexer \<Rightarrow> (lexer + char \<times> lexer) option" where
  "lex_quoted c l =
     (if c \<noteq> DQUOTE \<and> \<not> iscntrl c then
        (case lex_quoted_body c l of
           None \<Rightarrow> None
         | Some (Inl l1) \<Rightarrow> Some (Inl l1)
         | Some (Inr l1) \<Rightarrow>
             (case next_byte l1 of None \<Rightarrow> None | Some (c2, l2) \<Rightarrow> lex_quoted c2 l2))
      else Some (Inr (c, l)))"
  by pat_completeness auto
termination
  by (relation "measure (\<lambda>(c, l). unread l)") (auto dest!: next_byte_unread lex_quoted_body_unread)

text \<open>\<^verbatim>\<open>while (!isspace(c) && !iscntrl(c)) { m_Output += c; c = m_Input[in++]; }\<close>\<close>

function lex_word :: "char \<Rightarrow> lexer \<Rightarrow> lexer option" where
  "lex_word c l =
     (if \<not> isspace c \<and> \<not> iscntrl c then
        (case next_byte (emit c l) of None \<Rightarrow> None | Some (c', l') \<Rightarrow> lex_word c' l')
      else Some l)"
  by pat_completeness auto
termination
  by (relation "measure (\<lambda>(c, l). unread l)") (auto dest!: next_byte_unread)

declare skip_spaces.simps [simp del] lex_digits.simps [simp del]
  lex_quoted.simps [simp del] lex_word.simps [simp del]

text \<open>The command words.\<close>

definition keyword :: "bytes \<Rightarrow> token" where
  "keyword w =
     (if length w \<le> 4 then
        if w = ''EXEC'' then Tok_exec
        else if w = ''PASS'' then Tok_pass
        else if w = ''DEL'' then Tok_delCmd
        else if w = ''PING'' then Tok_ping
        else if w = ''EXIT'' then Tok_exit
        else if w = ''STOP'' then Tok_stop
        else if w = ''SET'' then Tok_set
        else if w = ''GET'' then Tok_get
        else if w = ''HOST'' then Tok_host
        else if w = ''SCHD'' then Tok_sched
        else if w = ''PRIO'' then Tok_prio
        else if w = ''DELV'' then Tok_delVar
        else if w = ''DELG'' then Tok_delGroup
        else if w = ''DELS'' then Tok_delSpecialKey
        else if w = ''GETK'' then Tok_getKeys
        else if w = ''CHKG'' then Tok_chkGroup
        else Tok_str
      else Tok_str)"

section \<open>The lexer\<close>

text \<open>
  \<^verbatim>\<open>lex()\<close> after the leading spaces, with the first character of the token read: a
  number, a quoted string, or a word.
\<close>

definition lex_token :: "char \<Rightarrow> lexer \<Rightarrow> (token \<times> lexer) option" where
  "lex_token c l =
     (if isdigit c then do {
        l1 \<leftarrow> lex_digits (emit c l);
        Some (Tok_num, step_back l1)
      }
      else if c = DQUOTE then do {
        (c1, l1) \<leftarrow> next_byte l;
        r \<leftarrow> lex_quoted c1 l1;
        (case r of
           Inl l2 \<Rightarrow> Some (Tok_none, l2)
         | Inr (c2, l2) \<Rightarrow> Some (if c2 = DQUOTE then Tok_str else Tok_none, l2))
      }
      else do {
        l1 \<leftarrow> lex_word c l;
        let l2 = step_back l1;
        Some (keyword (m_Output l2), l2)
      })"

text \<open>
  \<^verbatim>\<open>lex()\<close>: every branch of its \<^verbatim>\<open>while (1)\<close> returns in the first pass. The value
  is the token and the lexer after it.
\<close>

definition lex :: "lexer \<Rightarrow> (token \<times> lexer) option" where
  "lex l0 = do {
     (c, l1) \<leftarrow> next_byte l0;
     let l2 = l1\<lparr>m_Output := []\<rparr>;
     if c = NL then Some (Tok_newline, l2)
     else if iscntrl c then Some (Tok_none, l2)
     else if isspace c then do {
       (c', l3) \<leftarrow> skip_spaces l2;
       lex_token c' l3
     }
     else lex_token c l2
   }"

section \<open>Positions\<close>

text \<open>
  \<open>rest\<close> is the input not read yet, \<open>current\<close> the input from the character read last,
  and \<open>holds c l\<close> says that \<open>c\<close> is that character.
\<close>

definition within :: "lexer \<Rightarrow> bool" where
  "within l \<longleftrightarrow> lex_in l \<le> length (m_Input l)"

definition rest :: "lexer \<Rightarrow> bytes" where
  "rest l = drop (lex_in l) (m_Input l)"

definition current :: "lexer \<Rightarrow> bytes" where
  "current l = drop (lex_in l - 1) (m_Input l)"

definition holds :: "char \<Rightarrow> lexer \<Rightarrow> bool" where
  "holds c l \<longleftrightarrow> 0 < lex_in l \<and> lex_in l \<le> Suc (length (m_Input l)) \<and>
     c = (case current l of [] \<Rightarrow> NUL | d # _ \<Rightarrow> d)"

definition advanced :: "lexer \<Rightarrow> lexer \<Rightarrow> bool" where
  "advanced l l' \<longleftrightarrow> m_Input l' = m_Input l \<and> lex_in l \<le> lex_in l' \<and> lex_in l' \<le> Suc (length (m_Input l))"

lemma advanced_trans: "advanced a b \<Longrightarrow> advanced b c \<Longrightarrow> advanced a c"
  by (auto simp: advanced_def)

lemma emit_simps [simp]:
  "m_Input (emit c l) = m_Input l" "lex_in (emit c l) = lex_in l" "m_Output (emit c l) = m_Output l @ [c]"
  "within (emit c l) = within l" "rest (emit c l) = rest l" "current (emit c l) = current l"
  by (simp_all add: emit_def within_def rest_def current_def)

lemma output_simps [simp]:
  "within (l\<lparr>m_Output := s\<rparr>) = within l" "rest (l\<lparr>m_Output := s\<rparr>) = rest l"
  "current (l\<lparr>m_Output := s\<rparr>) = current l" "holds c (l\<lparr>m_Output := s\<rparr>) = holds c l"
  "advanced k (l\<lparr>m_Output := s\<rparr>) = advanced k l" "advanced (l\<lparr>m_Output := s\<rparr>) k = advanced l k"
  by (simp_all add: within_def rest_def current_def holds_def advanced_def)

lemma advanced_emit [simp]: "advanced (emit c l) k = advanced l k" "advanced k (emit c l) = advanced k l"
  by (simp_all add: advanced_def)

lemma holds_emit [simp]: "holds c (emit d l) = holds c l"
  by (simp add: holds_def)

lemma step_back_simps [simp]:
  "m_Input (step_back l) = m_Input l" "m_Output (step_back l) = m_Output l" "rest (step_back l) = current l"
  "lex_in (step_back l) = lex_in l - 1"
  by (simp_all add: step_back_def rest_def current_def)

lemma within_step_back: "lex_in l \<le> Suc (length (m_Input l)) \<Longrightarrow> within (step_back l)"
  by (simp add: within_def)

lemma holds_ConsD: "holds c l \<Longrightarrow> c \<noteq> NUL \<Longrightarrow> current l = c # rest l \<and> within l"
proof -
  assume h: "holds c l" "c \<noteq> NUL"
  then obtain ys where ys: "drop (lex_in l - 1) (m_Input l) = c # ys" and pos: "0 < lex_in l"
    by (auto simp: holds_def current_def split: list.splits)
  from pos have "Suc (lex_in l - 1) = lex_in l" by simp
  with drop_eq_ConsD [OF ys] have "ys = rest l" "lex_in l - 1 < length (m_Input l)"
    by (simp_all add: rest_def)
  then show ?thesis using ys by (simp add: current_def within_def)
qed

lemma next_byte_within:
  assumes "within l"
  obtains c l' where "next_byte l = Some (c, l')" "holds c l'" "current l' = rest l" "advanced l l'"
    "lex_in l' = Suc (lex_in l)" "m_Output l' = m_Output l"
proof -
  let ?l' = "l\<lparr>lex_in := Suc (lex_in l)\<rparr>"
  let ?c = "case rest l of [] \<Rightarrow> NUL | d # _ \<Rightarrow> d"
  have "byte_at (m_Input l) (lex_in l) = Some ?c"
    using assms by (auto simp: byte_at_def within_def rest_def hd_drop_conv_nth [symmetric] split: list.splits)
  then have "next_byte l = Some (?c, ?l')" by (simp add: next_byte_def)
  moreover have "holds ?c ?l'" "current ?l' = rest l" "advanced l ?l'"
    using assms by (simp_all add: holds_def current_def rest_def within_def advanced_def)
  ultimately show thesis by (intro that [of ?c ?l']) simp_all
qed

section \<open>The lexer on the remaining input\<close>

definition word_char :: "char \<Rightarrow> bool" where
  "word_char c \<longleftrightarrow> \<not> isspace c \<and> \<not> iscntrl c"

definition ref_escape :: "bytes \<Rightarrow> bytes + char \<times> bytes" where
  "ref_escape s = (case s of [] \<Rightarrow> Inl []
   | c # cs \<Rightarrow>
       if iscntrl c then Inl cs
       else if c = CHR ''^'' then
         (case cs of [] \<Rightarrow> Inl []
          | d # ds \<Rightarrow> if d = DQUOTE \<or> iscntrl d then Inl ds else Inr (byte_minus d 64, ds))
       else Inr (c, cs))"

definition ref_body :: "char \<Rightarrow> bytes \<Rightarrow> bytes + char \<times> bytes" where
  "ref_body c cs = (if c = BSLASH then ref_escape cs else Inr (c, cs))"

lemma ref_body_length: "ref_body c cs = Inr (d, ds) \<Longrightarrow> length ds \<le> length cs"
  by (auto simp: ref_body_def ref_escape_def split: list.splits if_splits)

function ref_quoted :: "bytes \<Rightarrow> bytes \<Rightarrow> token \<times> bytes \<times> bytes" where
  "ref_quoted out [] = (Tok_none, out, [])"
| "ref_quoted out (c # cs) =
     (if c = DQUOTE then (Tok_str, out, cs)
      else if iscntrl c then (Tok_none, out, cs)
      else (case ref_body c cs of
          Inl ds \<Rightarrow> (Tok_none, out, ds)
        | Inr (d, ds) \<Rightarrow> ref_quoted (out @ [d]) ds))"
  by pat_completeness auto
termination
  by (relation "measure (\<lambda>(out, s). length s)") (auto dest: ref_body_length intro: le_imp_less_Suc)

definition ref_token :: "bytes \<Rightarrow> token \<times> bytes \<times> bytes" where
  "ref_token s =
     (if s \<noteq> [] \<and> isdigit (hd s) then (Tok_num, takeWhile isdigit s, dropWhile isdigit s)
      else if s \<noteq> [] \<and> hd s = DQUOTE then ref_quoted [] (tl s)
      else (keyword (takeWhile word_char s), takeWhile word_char s, dropWhile word_char s))"

definition ref_lex :: "bytes \<Rightarrow> token \<times> bytes \<times> bytes" where
  "ref_lex s = (case s of [] \<Rightarrow> (Tok_none, [], [])
   | c # cs \<Rightarrow>
       if c = NL then (Tok_newline, [], cs)
       else if iscntrl c then (Tok_none, [], cs)
       else ref_token (if isspace c then dropWhile isspace cs else s))"

lemma skip_spaces_ref:
  assumes "within l"
  shows "\<exists>c l'. skip_spaces l = Some (c, l') \<and> holds c l' \<and> current l' = dropWhile isspace (rest l) \<and>
    advanced l l' \<and> lex_in l < lex_in l' \<and> m_Output l' = m_Output l"
  using assms
proof (induction l rule: skip_spaces.induct)
  case (1 l)
  obtain c l' where n: "next_byte l = Some (c, l')" "holds c l'" "current l' = rest l" "advanced l l'"
    "lex_in l' = Suc (lex_in l)" "m_Output l' = m_Output l"
    by (rule next_byte_within [OF "1.prems"])
  show ?case
  proof (cases "isspace c")
    case True
    then have "c \<noteq> NUL" by auto
    then have cons: "rest l = c # rest l'" and w: "within l'" using holds_ConsD [OF n(2)] n(3) by auto
    from "1.IH" [OF n(1) refl True w] obtain d l'' where
      "skip_spaces l' = Some (d, l'')" "holds d l''" "current l'' = dropWhile isspace (rest l')"
      "advanced l' l''" "lex_in l' < lex_in l''" "m_Output l'' = m_Output l'"
      by blast
    then show ?thesis using n True cons by (auto simp: skip_spaces.simps [of l] advanced_def)
  next
    case False
    then have "dropWhile isspace (rest l) = rest l"
      using n(2,3) by (cases "rest l") (auto simp: holds_def)
    then show ?thesis using n False by (auto simp: skip_spaces.simps [of l])
  qed
qed

lemma lex_digits_ref:
  assumes "within l"
  shows "\<exists>l'. lex_digits l = Some l' \<and> current l' = dropWhile isdigit (rest l) \<and>
    m_Output l' = m_Output l @ takeWhile isdigit (rest l) \<and> advanced l l' \<and> lex_in l < lex_in l'"
  using assms
proof (induction l rule: lex_digits.induct)
  case (1 l)
  obtain c l' where n: "next_byte l = Some (c, l')" "holds c l'" "current l' = rest l" "advanced l l'"
    "lex_in l' = Suc (lex_in l)" "m_Output l' = m_Output l"
    by (rule next_byte_within [OF "1.prems"])
  show ?case
  proof (cases "isdigit c")
    case True
    then have "c \<noteq> NUL" by auto
    then have cons: "rest l = c # rest l'" and w: "within (emit c l')" using holds_ConsD [OF n(2)] n(3) by auto
    from "1.IH" [OF n(1) refl True w] obtain l'' where
      "lex_digits (emit c l') = Some l''" "current l'' = dropWhile isdigit (rest l')"
      "m_Output l'' = m_Output l @ c # takeWhile isdigit (rest l')" "advanced l' l''" "lex_in l' < lex_in l''"
      using n(6) by auto
    then show ?thesis using n True cons by (auto simp: lex_digits.simps [of l] advanced_def)
  next
    case False
    then have "dropWhile isdigit (rest l) = rest l \<and> takeWhile isdigit (rest l) = []"
      using n(2,3) by (cases "rest l") (auto simp: holds_def)
    then show ?thesis using n False by (auto simp: lex_digits.simps [of l])
  qed
qed

lemma lex_word_ref:
  assumes "holds c l"
  shows "\<exists>l'. lex_word c l = Some l' \<and> current l' = dropWhile word_char (current l) \<and>
    m_Output l' = m_Output l @ takeWhile word_char (current l) \<and> advanced l l'"
  using assms
proof (induction c l rule: lex_word.induct)
  case (1 c l)
  show ?case
  proof (cases "word_char c")
    case True
    then have wc: "\<not> isspace c \<and> \<not> iscntrl c" and "c \<noteq> NUL" by (auto simp: word_char_def)
    then have cons: "current l = c # rest l" and w: "within (emit c l)" using holds_ConsD [OF "1.prems"] by auto
    obtain d l' where n: "next_byte (emit c l) = Some (d, l')" "holds d l'" "current l' = rest (emit c l)"
      "advanced (emit c l) l'" "lex_in l' = Suc (lex_in (emit c l))" "m_Output l' = m_Output (emit c l)"
      by (rule next_byte_within [OF w])
    from "1.IH" [OF wc n(1) refl n(2)] obtain l'' where
      "lex_word d l' = Some l''" "current l'' = dropWhile word_char (rest l)"
      "m_Output l'' = m_Output l @ c # takeWhile word_char (rest l)" "advanced l' l''"
      using n by auto
    then show ?thesis using n True wc cons by (auto simp: lex_word.simps [of c l] intro: advanced_trans)
  next
    case False
    then have "dropWhile word_char (current l) = current l \<and> takeWhile word_char (current l) = []"
      using "1.prems" by (cases "current l") (auto simp: holds_def)
    moreover have "advanced l l" using "1.prems" by (simp add: holds_def advanced_def)
    moreover have "lex_word c l = Some l" using False by (auto simp: lex_word.simps [of c l] word_char_def)
    ultimately show ?thesis by simp
  qed
qed

lemma advanced_refl: "holds c l \<Longrightarrow> advanced l l"
  by (simp add: holds_def advanced_def)

text \<open>After reading a character: either it was there, or the input had ended.\<close>

lemma next_byte_cases [consumes 2, case_names byte ended]:
  assumes "next_byte l = Some (c, l')" "within l"
  obtains (byte) "rest l = c # rest l'" "within l'" | (ended) "rest l = []" "rest l' = []" "c = NUL"
  using assms
  by (cases "lex_in l < length (m_Input l)")
    (auto simp: next_byte_def byte_at_def within_def rest_def Cons_nth_drop_Suc split: if_splits)

lemma lex_body_ref:
  assumes "within l"
  shows "\<exists>r. lex_quoted_body c l = Some r \<and> (case r of
      Inl l' \<Rightarrow> ref_body c (rest l) = Inl (rest l') \<and> m_Output l' = m_Output l \<and> advanced l l'
    | Inr l' \<Rightarrow> within l' \<and> advanced l l' \<and>
        (\<exists>d. ref_body c (rest l) = Inr (d, rest l') \<and> m_Output l' = m_Output l @ [d]))"
proof (cases "c = BSLASH")
  case False
  then show ?thesis using assms by (simp add: lex_quoted_body_def ref_body_def advanced_def within_def)
next
  case True
  obtain d l1 where n: "next_byte l = Some (d, l1)" "advanced l l1" "m_Output l1 = m_Output l"
    by (rule next_byte_within [OF assms])
  from n(1) assms show ?thesis
  proof (cases rule: next_byte_cases)
    case ended
    then show ?thesis using n True
      by (auto simp: lex_quoted_body_def lex_escape_def ref_body_def ref_escape_def)
  next
    case byte
    obtain e l2 where n2: "next_byte l1 = Some (e, l2)" "advanced l1 l2" "m_Output l2 = m_Output l1"
      by (rule next_byte_within [OF byte(2)])
    have "advanced l l2" by (rule advanced_trans [OF n(2) n2(2)])
    with n2(1) byte(2) show ?thesis
      using n n2 byte True
      by (cases rule: next_byte_cases)
        (auto simp: lex_quoted_body_def lex_escape_def ref_body_def ref_escape_def)
  qed
qed

text \<open>
  What \<open>lex_quoted\<close> leaves: the token and the position that \<open>ref_quoted\<close> computes, and a
  position within the input where the string was closed.
\<close>

definition quoted_token :: "lexer + char \<times> lexer \<Rightarrow> token" where
  "quoted_token r = (case r of Inl l \<Rightarrow> Tok_none | Inr (c, l) \<Rightarrow> if c = DQUOTE then Tok_str else Tok_none)"

definition quoted_end :: "lexer + char \<times> lexer \<Rightarrow> lexer" where
  "quoted_end r = (case r of Inl l \<Rightarrow> l | Inr (c, l) \<Rightarrow> l)"

lemma quoted_simps [simp]:
  "quoted_token (Inl l) = Tok_none" "quoted_token (Inr (c, l)) = (if c = DQUOTE then Tok_str else Tok_none)"
  "quoted_end (Inl l) = l" "quoted_end (Inr (c, l)) = l"
  by (simp_all add: quoted_token_def quoted_end_def)

lemma lex_quoted_ref:
  assumes "holds c l"
  shows "\<exists>r. lex_quoted c l = Some r \<and> advanced l (quoted_end r) \<and>
    ref_quoted (m_Output l) (current l) = (quoted_token r, m_Output (quoted_end r), rest (quoted_end r)) \<and>
    (quoted_token r = Tok_str \<longrightarrow> within (quoted_end r))"
  using assms
proof (induction c l rule: lex_quoted.induct)
  case (1 c l)
  note step = lex_quoted.simps [of c l]
  show ?case
  proof (cases "c \<noteq> DQUOTE \<and> \<not> iscntrl c")
    case False
    then have "lex_quoted c l = Some (Inr (c, l))" by (auto simp: step)
    moreover have "ref_quoted (m_Output l) (current l) =
        (if c = DQUOTE then Tok_str else Tok_none, m_Output l, rest l)"
      using "1.prems" False
      by (cases "current l") (auto simp: holds_def current_def rest_def dest: drop_eq_ConsD)
    ultimately show ?thesis
      using advanced_refl [OF "1.prems"] holds_ConsD [OF "1.prems"] by (auto intro!: exI [of _ "Inr (c, l)"])
  next
    case go: True
    then have "c \<noteq> NUL" by auto
    then have cons: "current l = c # rest l" and w: "within l" using holds_ConsD [OF "1.prems"] by auto
    obtain r where r: "lex_quoted_body c l = Some r" and body: "case r of
      Inl l' \<Rightarrow> ref_body c (rest l) = Inl (rest l') \<and> m_Output l' = m_Output l \<and> advanced l l'
    | Inr l' \<Rightarrow> within l' \<and> advanced l l' \<and>
        (\<exists>d. ref_body c (rest l) = Inr (d, rest l') \<and> m_Output l' = m_Output l @ [d])"
      using lex_body_ref [OF w] by blast
    show ?thesis
    proof (cases r)
      case (Inl l1)
      then show ?thesis using go r body cons by (simp add: step)
    next
      case (Inr l1)
      with body have w1: "within l1" and adv: "advanced l l1" by simp_all
      obtain e l2 where n: "next_byte l1 = Some (e, l2)" "holds e l2" "current l2 = rest l1"
        "advanced l1 l2" "m_Output l2 = m_Output l1"
        by (rule next_byte_within [OF w1])
      note IH = "1.IH" [OF go, of "Inr l1" l1 "(e, l2)" e l2]
      from IH r Inr n obtain q where q: "lex_quoted e l2 = Some q" "advanced l2 (quoted_end q)"
        "ref_quoted (m_Output l2) (current l2) = (quoted_token q, m_Output (quoted_end q), rest (quoted_end q))"
        "quoted_token q = Tok_str \<longrightarrow> within (quoted_end q)"
        by blast
      moreover have "ref_quoted (m_Output l) (current l) = ref_quoted (m_Output l2) (current l2)"
        using go cons body Inr n by auto
      moreover have "lex_quoted c l = lex_quoted e l2" using go r Inr n by (simp add: step)
      moreover have "advanced l (quoted_end q)" using adv n q advanced_trans by blast
      ultimately show ?thesis by metis
    qed
  qed
qed

lemma keyword_not_none: "keyword w \<noteq> Tok_none" "keyword w \<noteq> Tok_num" "keyword w \<noteq> Tok_newline"
  by (simp_all add: keyword_def)

lemma ref_quoted_token: "fst (ref_quoted out s) \<in> {Tok_str, Tok_none}"
  by (induction out s rule: ref_quoted.induct) (auto split: sum.splits)

text \<open>The contract of \<open>lex\<close> and of its tail: in bounds, progress, and the reference result.\<close>

definition lexes :: "lexer \<Rightarrow> token \<times> bytes \<times> bytes \<Rightarrow> (token \<times> lexer) option \<Rightarrow> bool" where
  "lexes l ref r \<longleftrightarrow> (\<exists>t l'. r = Some (t, l') \<and> ref = (t, m_Output l', rest l') \<and> advanced l l' \<and>
     lex_in l < lex_in l' \<and> (t \<noteq> Tok_none \<longrightarrow> within l'))"

lemma lexesI: "r = Some (t, l') \<Longrightarrow> ref = (t, m_Output l', rest l') \<Longrightarrow> advanced l l' \<Longrightarrow>
    lex_in l < lex_in l' \<Longrightarrow> (t \<noteq> Tok_none \<Longrightarrow> within l') \<Longrightarrow> lexes l ref r"
  by (auto simp: lexes_def)

lemma lex_token_number:
  assumes c: "holds c l" "isdigit c" and out: "m_Output l = []"
    and adv: "advanced l0 l" "lex_in l0 < lex_in l"
  shows "lexes l0 (ref_token (current l)) (lex_token c l)"
proof -
  have "c \<noteq> NUL" using c by auto
  then have cons: "current l = c # rest l" and w: "within (emit c l)" using holds_ConsD [OF c(1)] by auto
  obtain l1 where d: "lex_digits (emit c l) = Some l1" "current l1 = dropWhile isdigit (rest l)"
    "m_Output l1 = c # takeWhile isdigit (rest l)" "advanced l l1" "lex_in l < lex_in l1"
    using lex_digits_ref [OF w] out by auto
  show ?thesis
  proof (rule lexesI)
    show "lex_token c l = Some (Tok_num, step_back l1)" using c d by (simp add: lex_token_def)
    show "ref_token (current l) = (Tok_num, m_Output (step_back l1), rest (step_back l1))"
      using c d cons by (simp add: ref_token_def)
  qed (use adv d in \<open>auto simp: advanced_def within_def\<close>)
qed

lemma lex_token_string:
  assumes c: "holds c l" "c = DQUOTE" and out: "m_Output l = []"
    and adv: "advanced l0 l" "lex_in l0 < lex_in l"
  shows "lexes l0 (ref_token (current l)) (lex_token c l)"
proof -
  have cons: "current l = c # rest l" and w: "within l" using holds_ConsD [OF c(1)] c(2) by auto
  obtain d l1 where n: "next_byte l = Some (d, l1)" "holds d l1" "current l1 = rest l"
    "advanced l l1" "lex_in l1 = Suc (lex_in l)" "m_Output l1 = m_Output l"
    by (rule next_byte_within [OF w])
  obtain r where q: "lex_quoted d l1 = Some r" "advanced l1 (quoted_end r)"
    "ref_quoted [] (rest l) = (quoted_token r, m_Output (quoted_end r), rest (quoted_end r))"
    "quoted_token r = Tok_str \<longrightarrow> within (quoted_end r)"
    using lex_quoted_ref [OF n(2)] n out by auto
  show ?thesis
  proof (rule lexesI)
    show "lex_token c l = Some (quoted_token r, quoted_end r)"
      using c n q(1) by (auto simp: lex_token_def split: sum.splits)
    show "ref_token (current l) = (quoted_token r, m_Output (quoted_end r), rest (quoted_end r))"
      using c q(3) cons by (simp add: ref_token_def)
  qed (use adv n q ref_quoted_token [of "[]" "rest l"] in \<open>auto simp: advanced_def\<close>)
qed

lemma lex_token_word:
  assumes c: "holds c l" "\<not> isdigit c" "c \<noteq> DQUOTE" and out: "m_Output l = []"
    and adv: "advanced l0 l" "lex_in l0 < lex_in (step_back l) \<or> lex_in l0 < lex_in l \<and> current l \<noteq> [] \<and> word_char c"
  shows "lexes l0 (ref_token (current l)) (lex_token c l)"
proof -
  obtain l1 where w: "lex_word c l = Some l1" "current l1 = dropWhile word_char (current l)"
    "m_Output l1 = takeWhile word_char (current l)" "advanced l l1"
    using lex_word_ref [OF c(1)] out by auto
  have hd: "current l = [] \<or> hd (current l) = c" using c(1) by (cases "current l") (auto simp: holds_def)
  have "lex_in l0 < lex_in (step_back l1)"
  proof (cases "lex_in l0 < lex_in (step_back l)")
    case True
    then show ?thesis using w(4) by (auto simp: advanced_def)
  next
    case False
    with adv have wc: "word_char c" "current l \<noteq> []" "lex_in l0 < lex_in l" by auto
    with hd w(2) have "length (current l1) < length (current l)"
      by (cases "current l") (auto simp: le_imp_less_Suc length_dropWhile_le)
    then have "lex_in l < lex_in l1" using w(4) by (auto simp: current_def advanced_def)
    then show ?thesis using wc by simp
  qed
  moreover have "ref_token (current l) = (keyword (m_Output l1), m_Output l1, current l1)"
    using hd c w by (auto simp: ref_token_def)
  ultimately show ?thesis
    using adv(1) w c by (intro lexesI [where t = "keyword (m_Output l1)" and l' = "step_back l1"])
      (auto simp: lex_token_def advanced_def within_def)
qed

theorem lex_ref_lex:
  assumes "within l"
  shows "lexes l (ref_lex (rest l)) (lex l)"
proof -
  obtain c l1 where n: "next_byte l = Some (c, l1)" "holds c l1" "current l1 = rest l" "advanced l l1"
    "lex_in l1 = Suc (lex_in l)"
    by (rule next_byte_within [OF assms])
  let ?l2 = "l1\<lparr>m_Output := []\<rparr>"
  from n(1) assms show ?thesis
  proof (cases rule: next_byte_cases)
    case ended
    then show ?thesis using n by (intro lexesI [where t = Tok_none and l' = ?l2]) (auto simp: lex_def ref_lex_def)
  next
    case byte
    consider (control) "iscntrl c" | (space) "\<not> iscntrl c" "isspace c" | (other) "\<not> iscntrl c" "\<not> isspace c"
      by blast
    then show ?thesis
    proof cases
      case control
      then show ?thesis using n byte
        by (intro lexesI [where t = "if c = NL then Tok_newline else Tok_none" and l' = ?l2])
          (auto simp: lex_def ref_lex_def)
    next
      case space
      obtain d l3 where s: "skip_spaces ?l2 = Some (d, l3)" "holds d l3"
        "current l3 = dropWhile isspace (rest l1)" "advanced l1 l3" "lex_in ?l2 < lex_in l3" "m_Output l3 = []"
        using skip_spaces_ref [of ?l2] byte(2) by auto
      have adv: "advanced l l3" "lex_in l < lex_in l3" "lex_in l < lex_in (step_back l3)"
        using advanced_trans [OF n(4) s(4)] s(5) n(5) by simp_all
      have "lexes l (ref_token (current l3)) (lex_token d l3)"
        using lex_token_number [OF s(2) _ s(6) adv(1,2)] lex_token_string [OF s(2) _ s(6) adv(1,2)]
          lex_token_word [OF s(2) _ _ s(6) adv(1)] adv(3) by blast
      then show ?thesis using n s byte space by (auto simp: lex_def ref_lex_def)
    next
      case other
      have "lexes l (ref_token (current ?l2)) (lex_token c ?l2)"
        using n byte other lex_token_number [of c ?l2 l] lex_token_string [of c ?l2 l]
          lex_token_word [of c ?l2 l] by (auto simp: word_char_def)
      then show ?thesis using n byte other by (auto simp: lex_def ref_lex_def)
    qed
  qed
qed

section \<open>What a caller relies on\<close>

lemma lex_within:
  assumes "within l"
  obtains t l' where "lex l = Some (t, l')" "m_Input l' = m_Input l" "lex_in l < lex_in l'"
    "t \<noteq> Tok_none \<Longrightarrow> within l'" "lex_in l' \<le> Suc (length (m_Input l))"
  using lex_ref_lex [OF assms] by (auto simp: lexes_def advanced_def)

lemma within_new_lexer [simp]: "within (new_lexer s)"
  by (simp add: within_def new_lexer_def)

text \<open>
  The interface the command parser uses: from a good state the next token exists, the
  state after it is good unless the token is \<^const>\<open>Tok_none\<close>, and the source gets smaller.
\<close>

locale token_source =
  fixes next_token :: "'l \<Rightarrow> (token \<times> 'l) option"
    and ok :: "'l \<Rightarrow> bool"
    and remaining :: "'l \<Rightarrow> nat"
  assumes token_available: "ok l \<Longrightarrow> \<exists>t l'. next_token l = Some (t, l')"
    and ok_next: "ok l \<Longrightarrow> next_token l = Some (t, l') \<Longrightarrow> t \<noteq> Tok_none \<Longrightarrow> ok l'"
    and remaining_next: "next_token l = Some (t, l') \<Longrightarrow> remaining l' < remaining l"
begin

text \<open>A parser that reads a token and goes on from good states only does not fail.\<close>

lemma bind_total:
  assumes "ok l"
    and "\<And>t l'. (t \<noteq> Tok_none \<Longrightarrow> ok l') \<Longrightarrow> remaining l' < remaining l \<Longrightarrow> \<exists>x. f (t, l') = Some x"
  shows "\<exists>x. Option.bind (next_token l) f = Some x"
  using token_available [OF assms(1)] ok_next [OF assms(1)] remaining_next assms(2) by fastforce

lemma bind_invariant:
  assumes "ok l" "Option.bind (next_token l) f = Some x"
    and "\<And>t l'. (t \<noteq> Tok_none \<Longrightarrow> ok l') \<Longrightarrow> next_token l = Some (t, l') \<Longrightarrow> f (t, l') = Some x \<Longrightarrow> Q"
  shows Q
  using assms ok_next [OF assms(1)] by (auto simp: bind_eq_Some_conv)

end

lemma next_byte_pos: "next_byte l = Some (c, l') \<Longrightarrow> within l"
  by (auto simp: next_byte_def byte_at_def within_def split: if_splits)

lemma lex_pos: "lex l = Some (t, l') \<Longrightarrow> within l"
  by (auto simp: lex_def bind_eq_Some_conv dest: next_byte_pos)

lemma lex_unread: "lex l = Some (t, l') \<Longrightarrow> unread l' < unread l"
proof -
  assume l: "lex l = Some (t, l')"
  then have w: "within l" by (rule lex_pos)
  with l have "m_Input l' = m_Input l" "lex_in l < lex_in l'" by (auto elim: lex_within)
  then show ?thesis using w by (auto simp: unread_def within_def)
qed

interpretation lx: token_source lex within unread
proof
  fix l l' t
  show "within l \<Longrightarrow> \<exists>t l'. lex l = Some (t, l')" by (auto elim: lex_within)
  show "within l \<Longrightarrow> lex l = Some (t, l') \<Longrightarrow> t \<noteq> Tok_none \<Longrightarrow> within l'" by (auto elim: lex_within)
  show "lex l = Some (t, l') \<Longrightarrow> unread l' < unread l" by (rule lex_unread)
qed

text \<open>A lexer over the input \<open>s\<close> with the suffix \<open>r\<close> to read and the value \<open>v\<close>.\<close>

definition lexer_at :: "bytes \<Rightarrow> bytes \<Rightarrow> bytes \<Rightarrow> lexer" where
  "lexer_at s r v = \<lparr>m_Input = s, m_Output = v, lex_in = length s - length r\<rparr>"

lemma new_lexer_at: "new_lexer s = lexer_at s s []"
  by (simp add: new_lexer_def lexer_at_def)

lemma lval_lexer_at [simp]: "lval (lexer_at s r v) = v"
  by (simp add: lval_def lexer_at_def)

lemma lex_lexer_at:
  assumes "suffix r s" and "ref_lex r = (t, v', r')"
  shows "\<exists>l'. lex (lexer_at s r v) = Some (t, l') \<and> (t \<noteq> Tok_none \<longrightarrow> l' = lexer_at s r' v' \<and> suffix r' s)"
proof -
  have "within (lexer_at s r v)" "rest (lexer_at s r v) = r"
    using assms(1) by (auto simp: within_def rest_def lexer_at_def suffix_def)
  from lex_ref_lex [OF this(1)] this(2) assms(2) obtain l' where l':
    "lex (lexer_at s r v) = Some (t, l')" "m_Output l' = v'" "rest l' = r'"
    "m_Input l' = s" "t \<noteq> Tok_none \<longrightarrow> within l'"
    by (auto simp: lexes_def advanced_def lexer_at_def)
  have "l' = lexer_at s r' v' \<and> suffix r' s" if "t \<noteq> Tok_none"
  proof -
    have "lex_in l' = length s - length r'" using l' that by (auto simp: within_def rest_def)
    moreover have "suffix r' s" using l' by (auto simp: rest_def suffix_drop)
    ultimately show ?thesis using l' by (simp add: lexer_at_def)
  qed
  then show ?thesis using l'(1) by blast
qed

lemma lex_at_token:
  "suffix r s \<Longrightarrow> ref_lex r = (t, v', r') \<Longrightarrow> t \<noteq> Tok_none \<Longrightarrow>
     lex (lexer_at s r v) = Some (t, lexer_at s r' v')"
  using lex_lexer_at by blast

section \<open>Tokens of the protocol on the remaining input\<close>

lemma ref_lex_newline [simp]: "ref_lex (NL # r) = (Tok_newline, [], r)"
  by (simp add: ref_lex_def)

lemma ref_lex_blank: "s \<noteq> [] \<Longrightarrow> \<not> isspace (hd s) \<Longrightarrow> \<not> iscntrl (hd s) \<Longrightarrow>
    ref_lex (CHR '' '' # s) = ref_lex s"
  by (cases s) (auto simp: ref_lex_def ctype)

lemma ref_lex_number:
  assumes "is_dec n" "r \<noteq> []" "\<not> isdigit (hd r)"
  shows "ref_lex (n @ r) = (Tok_num, n, r)"
proof -
  obtain c cs where n: "n = c # cs" using assms(1) by (cases n) (auto simp: is_dec_def)
  have digits: "\<forall>x \<in> set n. isdigit x" using assms(1) by (simp add: is_dec_def list_all_iff)
  have c: "isdigit c" "\<not> iscntrl c" "\<not> isspace c" "c \<noteq> NL"
    using digits n by (auto simp: ctype)
  obtain d ds where r: "r = d # ds" "\<not> isdigit d" using assms(2,3) by (cases r) auto
  have "takeWhile isdigit (n @ r) = n" "dropWhile isdigit (n @ r) = r"
    using takeWhile_append_stop [OF digits, of d ds] dropWhile_append_stop [OF digits, of d ds] r by simp_all
  then show ?thesis using c n by (simp add: ref_lex_def ref_token_def)
qed

lemma ref_lex_word:
  assumes "w \<noteq> []" "\<forall>c \<in> set w. word_char c" "\<not> isdigit (hd w)" "hd w \<noteq> DQUOTE"
    and "r \<noteq> []" "\<not> word_char (hd r)"
  shows "ref_lex (w @ r) = (keyword w, w, r)"
proof -
  obtain c cs where w: "w = c # cs" using assms(1) by (cases w) auto
  have c: "\<not> iscntrl c" "\<not> isspace c" "c \<noteq> NL" using assms(2) w by (auto simp: word_char_def)
  obtain d ds where r: "r = d # ds" "\<not> word_char d" using assms(5,6) by (cases r) auto
  have "takeWhile word_char (w @ r) = w" "dropWhile word_char (w @ r) = r"
    using takeWhile_append_stop [OF assms(2), of d ds] dropWhile_append_stop [OF assms(2), of d ds] r
    by simp_all
  then show ?thesis using c w assms(3,4) by (simp add: ref_lex_def ref_token_def)
qed

end
