(* ===== verification/Qmap.thy ===== *)
theory Qmap
  imports Prelude
begin

text \<open>
  The ordered map the repository is built on. The locale \<open>ordered_map\<close> states what the
  program relies on in \<^verbatim>\<open>QMap\<close>: lookup after insertion and erasure, and iteration
  over the entries in ascending key order; the lemmas on erasing a list of keys are proved
  from these laws only. The model's map is an association list kept strictly ascending in
  its keys, for which the laws are proved below (interpretation \<open>qm\<close>). Keys are byte
  arrays, whose order is the lexicographic one on unsigned bytes.
\<close>

section \<open>The interface\<close>

locale ordered_map =
  fixes find :: "'m \<Rightarrow> 'k::linorder \<Rightarrow> 'v option"
    and put :: "'k \<Rightarrow> 'v \<Rightarrow> 'm \<Rightarrow> 'm"
    and erase :: "'k \<Rightarrow> 'm \<Rightarrow> 'm"
    and entries :: "'m \<Rightarrow> ('k \<times> 'v) list"
    and invar :: "'m \<Rightarrow> bool"
  assumes invar_put: "invar m \<Longrightarrow> invar (put k v m)"
    and invar_erase: "invar m \<Longrightarrow> invar (erase k m)"
    and ascending: "invar m \<Longrightarrow> sorted_wrt (<) (map fst (entries m))"
    and find_entries: "invar m \<Longrightarrow> find m k = Some v \<longleftrightarrow> (k, v) \<in> set (entries m)"
    and set_put: "invar m \<Longrightarrow> set (entries (put k v m)) = insert (k, v) {e \<in> set (entries m). fst e \<noteq> k}"
    and entries_erase: "invar m \<Longrightarrow> entries (erase k m) = filter (\<lambda>e. fst e \<noteq> k) (entries m)"
begin

lemma find_put: "invar m \<Longrightarrow> find (put k v m) k' = (if k' = k then Some v else find m k')"
  by (rule option_eqI) (auto simp: find_entries invar_put set_put)

lemma find_erase: "invar m \<Longrightarrow> find (erase k m) k' = (if k' = k then None else find m k')"
  by (rule option_eqI) (auto simp: find_entries invar_erase entries_erase)

lemma find_None: "invar m \<Longrightarrow> find m k = None \<longleftrightarrow> k \<notin> fst ` set (entries m)"
  using find_entries [of m k] by (cases "find m k") force+

lemma erase_list:
  "invar m \<Longrightarrow> invar (fold erase ks m) \<and>
     entries (fold erase ks m) = filter (\<lambda>e. fst e \<notin> set ks) (entries m)"
proof (induction ks arbitrary: m)
  case (Cons k ks)
  then have IH: "invar (fold erase ks (erase k m)) \<and>
      entries (fold erase ks (erase k m)) = filter (\<lambda>e. fst e \<notin> set ks) (entries (erase k m))"
    by (simp add: invar_erase)
  have "filter (\<lambda>e. fst e \<notin> set ks) (entries (erase k m)) = filter (\<lambda>e. fst e \<notin> set (k # ks)) (entries m)"
    using Cons.prems by (auto simp: entries_erase intro: filter_cong)
  then show ?case using IH by simp
qed simp

lemma erase_matching:
  assumes m: "invar m"
    and ks: "set ks = fst ` {e \<in> set (entries m). P e}"
  shows "entries (fold erase ks m) = filter (\<lambda>e. \<not> P e) (entries m)"
proof -
  have "fst e \<notin> set ks \<longleftrightarrow> \<not> P e" if e: "e \<in> set (entries m)" for e
  proof -
    have "e' = e" if "e' \<in> set (entries m)" and "fst e' = fst e" for e'
    proof -
      have "find m (fst e) = Some (snd e)" "find m (fst e) = Some (snd e')"
        using find_entries [OF m] e that by (metis prod.collapse)+
      with that show ?thesis by (simp add: prod_eq_iff)
    qed
    then show ?thesis using e ks by auto
  qed
  then show ?thesis using erase_list [OF m, of ks] by (simp cong: filter_cong)
qed

end

section \<open>The model\<close>

type_synonym ('k, 'v) qmap = "('k \<times> 'v) list"

definition qmap_invar :: "('k::linorder, 'v) qmap \<Rightarrow> bool" where
  "qmap_invar m \<longleftrightarrow> sorted_wrt (<) (map fst m)"

definition qmap_find :: "('k, 'v) qmap \<Rightarrow> 'k \<Rightarrow> 'v option" where
  "qmap_find m k = map_of m k"

fun qmap_insert :: "'k::linorder \<Rightarrow> 'v \<Rightarrow> ('k, 'v) qmap \<Rightarrow> ('k, 'v) qmap" where
  "qmap_insert k v [] = [(k, v)]"
| "qmap_insert k v (e # m) =
     (if fst e < k then e # qmap_insert k v m
      else if fst e = k then (k, v) # m
      else (k, v) # e # m)"

definition qmap_erase :: "'k \<Rightarrow> ('k, 'v) qmap \<Rightarrow> ('k, 'v) qmap" where
  "qmap_erase k m = filter (\<lambda>e. fst e \<noteq> k) m"

definition qmap_entries :: "('k, 'v) qmap \<Rightarrow> ('k \<times> 'v) list" where
  "qmap_entries m = m"

lemma qmap_invar_Nil [simp]: "qmap_invar []"
  by (simp add: qmap_invar_def)

lemma qmap_invar_Cons: "qmap_invar (e # m) \<longleftrightarrow> (\<forall>x \<in> set m. fst e < fst x) \<and> qmap_invar m"
  by (auto simp: qmap_invar_def)

lemma set_qmap_insert:
  "qmap_invar m \<Longrightarrow> set (qmap_insert k v m) = insert (k, v) {e \<in> set m. fst e \<noteq> k}"
proof (induction m)
  case (Cons e m)
  then have IH: "set (qmap_insert k v m) = insert (k, v) {x \<in> set m. fst x \<noteq> k}"
    and above: "\<forall>x \<in> set m. fst e < fst x"
    by (auto simp: qmap_invar_Cons)
  show ?case
  proof (cases "fst e < k")
    case True
    then show ?thesis using IH by auto
  next
    case False
    then have "\<forall>x \<in> set m. fst x \<noteq> k" using above by auto
    then show ?thesis using False by auto
  qed
qed simp

lemma qmap_invar_insert: "qmap_invar m \<Longrightarrow> qmap_invar (qmap_insert k v m)"
proof (induction m)
  case (Cons e m)
  then show ?case by (auto simp: qmap_invar_Cons set_qmap_insert)
qed (simp add: qmap_invar_def)

lemma qmap_invar_filter: "qmap_invar m \<Longrightarrow> qmap_invar (filter P m)"
  by (induction m) (auto simp: qmap_invar_Cons)

lemma qmap_find_iff: "qmap_invar m \<Longrightarrow> qmap_find m k = Some v \<longleftrightarrow> (k, v) \<in> set m"
proof (induction m)
  case (Cons e m)
  then show ?case by (cases e) (auto simp: qmap_find_def qmap_invar_Cons)
qed (simp add: qmap_find_def)

interpretation qm: ordered_map qmap_find qmap_insert qmap_erase qmap_entries qmap_invar
proof
  fix m :: "('a, 'b) qmap" and k v
  assume m: "qmap_invar m"
  show "qmap_invar (qmap_insert k v m)" by (rule qmap_invar_insert [OF m])
  show "qmap_invar (qmap_erase k m)" unfolding qmap_erase_def by (rule qmap_invar_filter [OF m])
  show "sorted_wrt (<) (map fst (qmap_entries m))" using m by (simp add: qmap_entries_def qmap_invar_def)
  show "qmap_find m k = Some v \<longleftrightarrow> (k, v) \<in> set (qmap_entries m)"
    unfolding qmap_entries_def by (rule qmap_find_iff [OF m])
  show "set (qmap_entries (qmap_insert k v m)) = insert (k, v) {e \<in> set (qmap_entries m). fst e \<noteq> k}"
    unfolding qmap_entries_def by (rule set_qmap_insert [OF m])
  show "qmap_entries (qmap_erase k m) = filter (\<lambda>e. fst e \<noteq> k) (qmap_entries m)"
    by (simp add: qmap_entries_def qmap_erase_def)
qed

end
