(* ===== verification/Repo.thy ===== *)
theory Repo
  imports Qt_Bytes Qmap
begin

text \<open>
  The daemon's string repository with expiration, \<^verbatim>\<open>src/src/kdesud/repo.cpp\<close> and
  \<^verbatim>\<open>repo.h\<close>. Times are kept at their width: \<^verbatim>\<open>head_time\<close> and the timeouts are
  \<^verbatim>\<open>unsigned\<close> 32-bit values, \<^verbatim>\<open>time()\<close> is a 64-bit value that the code truncates,
  and it is an argument of the operations that call it. Keys collected on a
  \<^verbatim>\<open>QStack\<close> are removed last pushed first, as the code pops them. Overwriting erased
  values with \<^verbatim>\<open>'x'\<close> has no effect on the values the model speaks about.

  \<open>repo_inv\<close> is the invariant of the class: keys ascending and not empty, and
  \<open>head_time\<close> below every timeout. The lemmas show that every operation keeps it, that each
  operation acts on the abstract map \<open>repo_map\<close> as its header promises, and that the early
  return of \<open>expire\<close> is taken only when nothing has expired.
\<close>

section \<open>State\<close>

record data_entry =
  entry_value :: qbytes
  entry_group :: bytes
  entry_timeout :: "32 word"

record repository =
  repo :: "(bytes, data_entry) qmap"
  head_time :: "32 word"

text \<open>\<^verbatim>\<open>(unsigned)-1\<close>, and \<^verbatim>\<open>time(nullptr)\<close> converted to \<^verbatim>\<open>unsigned\<close>.\<close>

definition never :: "32 word" where
  "never = -1"

definition unsigned_time :: "64 word \<Rightarrow> 32 word" where
  "unsigned_time now = ucast now"

definition new_repository :: repository where
  "new_repository = \<lparr>repo = [], head_time = never\<rparr>"

section \<open>Operations\<close>

definition remove :: "bytes \<Rightarrow> repository \<Rightarrow> int \<times> repository" where
  "remove key r =
     (if key = [] then (-1, r)
      else case qmap_find (repo r) key of
        None \<Rightarrow> (-1, r)
      | Some e \<Rightarrow> (0, r\<lparr>repo := qmap_erase key (repo r)\<rparr>))"

text \<open>\<^verbatim>\<open>add\<close> also changes the timeout of the entry it is given, which is the second result.\<close>

definition absolute_timeout :: "64 word \<Rightarrow> 32 word \<Rightarrow> 32 word" where
  "absolute_timeout now t = (if t = 0 then never else t + unsigned_time now)"

definition add :: "bytes \<Rightarrow> data_entry \<Rightarrow> 64 word \<Rightarrow> repository \<Rightarrow> repository \<times> data_entry" where
  "add key data now r =
     (let r1 = (if qmap_find (repo r) key \<noteq> None then snd (remove key r) else r);
          data1 = data\<lparr>entry_timeout := absolute_timeout now (entry_timeout data)\<rparr>;
          r2 = r1\<lparr>head_time := min (head_time r1) (entry_timeout data1)\<rparr>
      in (r2\<lparr>repo := qmap_insert key data1 (repo r2)\<rparr>, data1))"

text \<open>\<^verbatim>\<open>while (!keys.isEmpty()) remove(keys.pop());\<close>\<close>

definition remove_popped :: "bytes list \<Rightarrow> repository \<Rightarrow> repository" where
  "remove_popped ks r = fold (\<lambda>k r. snd (remove k r)) (rev ks) r"

text \<open>The keys of the entries that satisfy a condition, in iteration order.\<close>

definition keys_where :: "(bytes \<times> data_entry \<Rightarrow> bool) \<Rightarrow> repository \<Rightarrow> bytes list" where
  "keys_where P r = map fst (filter P (qmap_entries (repo r)))"

definition special_match :: "bytes \<Rightarrow> bytes \<times> data_entry \<Rightarrow> bool" where
  "special_match key e \<longleftrightarrow> indexOf key (entry_group (snd e)) = 0 \<and> indexOf (fst e) key \<ge> 0"

definition removeSpecialKey :: "bytes \<Rightarrow> repository \<Rightarrow> int \<times> repository" where
  "removeSpecialKey key r =
     (if key \<noteq> [] then
        let rm_keys = keys_where (special_match key) r
        in (if rm_keys = [] then -1 else 0, remove_popped rm_keys r)
      else (-1, r))"

definition in_group :: "bytes \<Rightarrow> bytes \<times> data_entry \<Rightarrow> bool" where
  "in_group g e \<longleftrightarrow> entry_group (snd e) = g"

definition removeGroup :: "bytes \<Rightarrow> repository \<Rightarrow> int \<times> repository" where
  "removeGroup g r =
     (if g \<noteq> [] then
        let rm_keys = keys_where (in_group g) r
        in (if rm_keys = [] then -1 else 0, remove_popped rm_keys r)
      else (-1, r))"

definition hasGroup :: "bytes \<Rightarrow> repository \<Rightarrow> int" where
  "hasGroup g r = (if g \<noteq> [] \<and> list_ex (in_group g) (qmap_entries (repo r)) then 0 else -1)"

text \<open>The name that \<^verbatim>\<open>findKeys\<close> cuts out of a key.\<close>

definition key_name :: "bytes \<Rightarrow> bytes \<Rightarrow> bytes" where
  "key_name sep key = remove_front (qtruncate key (lastIndexOf key sep)) 2"

fun findKeys_loop :: "bytes \<Rightarrow> bytes \<Rightarrow> bytes \<Rightarrow> (bytes \<times> data_entry) list \<Rightarrow> bytes" where
  "findKeys_loop g sep list [] = list"
| "findKeys_loop g sep list (e # es) =
     (if in_group g e then
        let key = key_name sep (fst e) in
        if list \<noteq> [] then
          if \<not> contains list key then findKeys_loop g sep (list @ [BEL] @ key) es
          else findKeys_loop g sep list es
        else findKeys_loop g sep key es
      else findKeys_loop g sep list es)"

definition findKeys :: "bytes \<Rightarrow> bytes \<Rightarrow> repository \<Rightarrow> bytes" where
  "findKeys g sep r = (if g \<noteq> [] then findKeys_loop g sep [] (qmap_entries (repo r)) else [])"

definition find :: "bytes \<Rightarrow> repository \<Rightarrow> qbytes" where
  "find key r =
     (if key = [] then None
      else case qmap_find (repo r) key of None \<Rightarrow> None | Some e \<Rightarrow> entry_value e)"

text \<open>The loop of \<^verbatim>\<open>expire\<close>: the expired keys and the smallest timeout of the others.\<close>

fun expire_scan :: "32 word \<Rightarrow> (bytes \<times> data_entry) list \<Rightarrow> bytes list \<Rightarrow> 32 word \<Rightarrow> bytes list \<times> 32 word" where
  "expire_scan current [] ks head = (ks, head)"
| "expire_scan current (e # es) ks head =
     (let t = entry_timeout (snd e) in
      if t \<le> current then expire_scan current es (ks @ [fst e]) head
      else expire_scan current es ks (min head t))"

definition expire :: "64 word \<Rightarrow> repository \<Rightarrow> int \<times> repository" where
  "expire now r =
     (let current = unsigned_time now in
      if current < head_time r then (0, r)
      else
        let (ks, head) = expire_scan current (qmap_entries (repo r)) [] never
        in (int (length ks), remove_popped ks (r\<lparr>head_time := head\<rparr>)))"

section \<open>The abstract map and the invariant\<close>

definition repo_map :: "repository \<Rightarrow> bytes \<Rightarrow> data_entry option" where
  "repo_map r k = qmap_find (repo r) k"

definition repo_inv :: "repository \<Rightarrow> bool" where
  "repo_inv r \<longleftrightarrow> qmap_invar (repo r) \<and>
     list_all (\<lambda>e. fst e \<noteq> [] \<and> head_time r \<le> entry_timeout (snd e)) (repo r)"

lemma repo_invD:
  assumes "repo_inv r"
  shows repo_inv_map: "qmap_invar (repo r)"
    and repo_inv_entry: "e \<in> set (repo r) \<Longrightarrow> fst e \<noteq> [] \<and> head_time r \<le> entry_timeout (snd e)"
  using assms by (auto simp: repo_inv_def list_all_iff)

lemma entries_repo [simp]: "qmap_entries m = m"
  by (simp add: qmap_entries_def)

lemma new_repository_inv [simp]: "repo_inv new_repository"
  by (simp add: repo_inv_def new_repository_def)

lemma remove_head_time [simp]: "head_time (snd (remove k r)) = head_time r"
  by (simp add: remove_def split: option.split)

lemma repo_remove: "repo (snd (remove k r)) = (if k = [] then repo r else qmap_erase k (repo r))"
proof (cases "qmap_find (repo r) k")
  case None
  then have "qmap_erase k (repo r) = repo r"
    by (auto simp: qmap_find_def map_of_eq_None_iff qmap_erase_def filter_id_conv)
  then show ?thesis using None by (simp add: remove_def)
qed (simp add: remove_def)

lemma remove_result: "fst (remove k r) = (if k \<noteq> [] \<and> repo_map r k \<noteq> None then 0 else -1)"
  by (auto simp: remove_def repo_map_def split: option.split)

lemma remove_inv: "repo_inv r \<Longrightarrow> repo_inv (snd (remove k r))"
  by (auto simp: repo_inv_def repo_remove qmap_erase_def qmap_invar_filter list_all_iff)

lemma keys_where_nonempty: "repo_inv r \<Longrightarrow> [] \<notin> set (keys_where P r)"
  by (fastforce simp: repo_inv_def list_all_iff keys_where_def)

lemma remove_popped_fold:
  "[] \<notin> set ks \<Longrightarrow>
     repo (fold (\<lambda>k r. snd (remove k r)) ks r) = fold qmap_erase ks (repo r) \<and>
     head_time (fold (\<lambda>k r. snd (remove k r)) ks r) = head_time r"
  by (induction ks arbitrary: r) (auto simp: repo_remove)

lemma remove_popped_spec:
  assumes "repo_inv r"
  shows "repo (remove_popped (keys_where P r) r) = filter (\<lambda>e. \<not> P e) (repo r)"
    and "head_time (remove_popped (keys_where P r) r) = head_time r"
proof -
  let ?ks = "rev (keys_where P r)"
  have ks: "set ?ks = fst ` {e \<in> set (qmap_entries (repo r)). P e}" by (auto simp: keys_where_def)
  have "[] \<notin> set ?ks" using keys_where_nonempty [OF assms] by simp
  from remove_popped_fold [OF this, of r] qm.erase_matching [OF repo_inv_map [OF assms] ks]
  show "repo (remove_popped (keys_where P r) r) = filter (\<lambda>e. \<not> P e) (repo r)"
    and "head_time (remove_popped (keys_where P r) r) = head_time r"
    by (simp_all add: remove_popped_def)
qed

lemma filter_inv: "repo_inv r \<Longrightarrow> repo r' = filter P (repo r) \<Longrightarrow> head_time r' = head_time r \<Longrightarrow> repo_inv r'"
  by (auto simp: repo_inv_def qmap_invar_filter list_all_iff)

lemma keys_where_Nil [simp]: "keys_where P r = [] \<longleftrightarrow> (\<forall>e \<in> set (repo r). \<not> P e)"
  by (simp add: keys_where_def filter_empty_conv)

section \<open>Removal\<close>

theorem removeGroup_spec:
  assumes "repo_inv r"
  shows "repo (snd (removeGroup g r)) = filter (\<lambda>e. g = [] \<or> entry_group (snd e) \<noteq> g) (repo r)"
    and "fst (removeGroup g r) = (if hasGroup g r = 0 then 0 else -1)"
    and "repo_inv (snd (removeGroup g r))"
proof -
  show "repo (snd (removeGroup g r)) = filter (\<lambda>e. g = [] \<or> entry_group (snd e) \<noteq> g) (repo r)"
    using remove_popped_spec [OF assms, of "in_group g"]
    by (simp add: removeGroup_def Let_def in_group_def)
  show "fst (removeGroup g r) = (if hasGroup g r = 0 then 0 else -1)"
    by (auto simp: removeGroup_def Let_def hasGroup_def list_ex_iff)
  show "repo_inv (snd (removeGroup g r))"
    using remove_popped_spec [OF assms, of "in_group g"] assms filter_inv [OF assms]
    by (simp add: removeGroup_def Let_def)
qed

lemma special_match_iff:
  "special_match key e \<longleftrightarrow> prefix (entry_group (snd e)) key \<and> sublist key (fst e)"
  by (simp add: special_match_def indexOf_0 indexOf_nonneg)

theorem removeSpecialKey_spec:
  assumes "repo_inv r"
  shows "repo (snd (removeSpecialKey key r)) = filter (\<lambda>e. key = [] \<or> \<not> special_match key e) (repo r)"
    and "fst (removeSpecialKey key r) = (if key \<noteq> [] \<and> list_ex (special_match key) (repo r) then 0 else -1)"
    and "repo_inv (snd (removeSpecialKey key r))"
proof -
  show "repo (snd (removeSpecialKey key r)) = filter (\<lambda>e. key = [] \<or> \<not> special_match key e) (repo r)"
    using remove_popped_spec [OF assms, of "special_match key"] by (simp add: removeSpecialKey_def Let_def)
  show "fst (removeSpecialKey key r) = (if key \<noteq> [] \<and> list_ex (special_match key) (repo r) then 0 else -1)"
    by (auto simp: removeSpecialKey_def Let_def list_ex_iff)
  show "repo_inv (snd (removeSpecialKey key r))"
    using remove_popped_spec [OF assms, of "special_match key"] assms filter_inv [OF assms]
    by (simp add: removeSpecialKey_def Let_def)
qed

section \<open>Insertion and lookup\<close>

lemma repo_add:
  assumes "repo_inv r"
  shows "repo_map (fst (add k d now r)) =
    (repo_map r)(k \<mapsto> d\<lparr>entry_timeout := absolute_timeout now (entry_timeout d)\<rparr>)"
proof -
  let ?r1 = "if qmap_find (repo r) k \<noteq> None then snd (remove k r) else r"
  have "qmap_invar (repo ?r1)" using repo_inv_map [OF assms] repo_inv_map [OF remove_inv [OF assms]] by simp
  moreover have "qmap_find (repo ?r1) j = qmap_find (repo r) j" if "j \<noteq> k" for j
    using qm.find_erase [OF repo_inv_map [OF assms]] that by (simp add: repo_remove)
  ultimately show ?thesis
    by (auto simp: fun_eq_iff repo_map_def add_def Let_def qm.find_put)
qed

lemma add_head_time:
  "head_time (fst (add k d now r)) = min (head_time r) (absolute_timeout now (entry_timeout d))"
  by (simp add: add_def Let_def)

lemma add_inv:
  assumes "repo_inv r" and "k \<noteq> []"
  shows "repo_inv (fst (add k d now r))"
proof -
  define r1 where "r1 = (if qmap_find (repo r) k \<noteq> None then snd (remove k r) else r)"
  define d1 where "d1 = d\<lparr>entry_timeout := absolute_timeout now (entry_timeout d)\<rparr>"
  let ?h = "min (head_time r) (entry_timeout d1)"
  have inv1: "repo_inv r1" and head: "head_time r1 = head_time r" using assms remove_inv by (auto simp: r1_def)
  have map: "qmap_invar (repo r1)" by (rule repo_inv_map [OF inv1])
  have "\<forall>e \<in> set (repo r1). fst e \<noteq> [] \<and> ?h \<le> entry_timeout (snd e)"
    using repo_inv_entry [OF inv1] head min.coboundedI1 by metis
  then have "\<forall>e \<in> set (qmap_insert k d1 (repo r1)). fst e \<noteq> [] \<and> ?h \<le> entry_timeout (snd e)"
    using assms(2) by (simp add: set_qmap_insert [OF map])
  moreover have "repo (fst (add k d now r)) = qmap_insert k d1 (repo r1)"
    "head_time (fst (add k d now r)) = ?h"
    using head by (simp_all add: add_def Let_def r1_def d1_def)
  ultimately show ?thesis
    using map by (simp add: repo_inv_def qmap_invar_insert list_all_iff)
qed

lemma find_repo_map: "k \<noteq> [] \<Longrightarrow> find k r = Option.bind (repo_map r k) entry_value"
  by (simp add: find_def repo_map_def split: option.split)

lemma find_add:
  assumes "repo_inv r" "k \<noteq> []" "j \<noteq> []"
  shows "find j (fst (add k d now r)) = (if j = k then entry_value d else find j r)"
  using assms by (simp add: find_repo_map repo_add)

lemma repo_map_remove:
  "repo_inv r \<Longrightarrow> k \<noteq> [] \<Longrightarrow> repo_map (snd (remove k r)) = (repo_map r)(k := None)"
  using qm.find_erase [OF repo_inv_map] by (auto simp: repo_map_def repo_remove fun_eq_iff)

lemma find_remove:
  "repo_inv r \<Longrightarrow> k \<noteq> [] \<Longrightarrow> find j (snd (remove k r)) = (if j = k then None else find j r)"
  by (cases "j = []") (simp_all add: find_def [of "[]"] find_repo_map repo_map_remove)

section \<open>Expiration\<close>

text \<open>The smallest timeout of some entries, and \<^verbatim>\<open>(unsigned)-1\<close> if there is none.\<close>

definition least_timeout :: "(bytes \<times> data_entry) list \<Rightarrow> 32 word" where
  "least_timeout es = foldl (\<lambda>h e. min h (entry_timeout (snd e))) never es"

lemma expire_scan_spec:
  "expire_scan current es ks head =
     (ks @ map fst (filter (\<lambda>e. entry_timeout (snd e) \<le> current) es),
      foldl (\<lambda>h e. min h (entry_timeout (snd e))) head (filter (\<lambda>e. \<not> entry_timeout (snd e) \<le> current) es))"
  by (induction current es ks head rule: expire_scan.induct) (simp_all add: Let_def)

lemma foldl_min_le:
  "foldl (\<lambda>h e. min h (f e)) h es \<le> (h :: 'a :: linorder) \<and> (\<forall>e \<in> set es. foldl (\<lambda>h e. min h (f e)) h es \<le> f e)"
proof (induction es arbitrary: h)
  case (Cons e es)
  from Cons [of "min h (f e)"] show ?case by auto
qed simp

lemma expire_idle:
  assumes "repo_inv r" and "unsigned_time now < head_time r"
  shows "expire now r = (0, r)" and "\<forall>e \<in> set (repo r). unsigned_time now < entry_timeout (snd e)"
  using assms repo_inv_entry [OF assms(1)] by (auto simp: expire_def Let_def intro: order_less_le_trans)

theorem expire_spec:
  assumes inv: "repo_inv r"
  shows "repo (snd (expire now r)) = filter (\<lambda>e. unsigned_time now < entry_timeout (snd e)) (repo r)"
    and "fst (expire now r) = int (length (filter (\<lambda>e. entry_timeout (snd e) \<le> unsigned_time now) (repo r)))"
    and "repo_inv (snd (expire now r))"
proof -
  let ?t = "unsigned_time now"
  let ?P = "\<lambda>e :: bytes \<times> data_entry. entry_timeout (snd e) \<le> ?t"
  have "repo (snd (expire now r)) = filter (\<lambda>e. ?t < entry_timeout (snd e)) (repo r) \<and>
      fst (expire now r) = int (length (filter ?P (repo r))) \<and> repo_inv (snd (expire now r))"
  proof (cases "?t < head_time r")
    case True
    note idle = expire_idle [OF inv True]
    have "filter (\<lambda>e. ?t < entry_timeout (snd e)) (repo r) = repo r" "filter ?P (repo r) = []"
      using idle(2) by (auto simp: filter_id_conv filter_empty_conv not_le)
    then show ?thesis using idle(1) inv by simp
  next
    case False
    let ?kept = "filter (\<lambda>e. ?t < entry_timeout (snd e)) (repo r)"
    let ?h = "least_timeout ?kept"
    let ?r0 = "r\<lparr>head_time := 0\<rparr>" and ?r1 = "r\<lparr>head_time := ?h\<rparr>"
    have inv0: "repo_inv ?r0" using inv by (simp add: repo_inv_def list_all_iff)
    have ex: "expire now r = (int (length (filter ?P (repo r))), remove_popped (keys_where ?P r) ?r1)"
      using False by (simp add: expire_def Let_def expire_scan_spec keys_where_def least_timeout_def not_le)
    have "[] \<notin> set (rev (keys_where ?P r))" using keys_where_nonempty [OF inv] by simp
    from remove_popped_fold [OF this, of ?r1] remove_popped_fold [OF this, of ?r0]
      remove_popped_spec [OF inv0, of ?P]
    have kept: "repo (remove_popped (keys_where ?P r) ?r1) = ?kept"
      "head_time (remove_popped (keys_where ?P r) ?r1) = ?h"
      by (simp_all add: remove_popped_def keys_where_def not_le)
    have "\<forall>e \<in> set ?kept. ?h \<le> entry_timeout (snd e)"
      using foldl_min_le unfolding least_timeout_def by metis
    then show ?thesis
      using ex kept repo_inv_entry [OF inv] repo_inv_map [OF inv]
      by (auto simp: repo_inv_def qmap_invar_filter list_all_iff)
  qed
  then show "repo (snd (expire now r)) = filter (\<lambda>e. ?t < entry_timeout (snd e)) (repo r)"
    "fst (expire now r) = int (length (filter ?P (repo r)))" "repo_inv (snd (expire now r))"
    by blast+
qed

lemma expire_map:
  assumes "repo_inv r"
  shows "repo_map (snd (expire now r)) k =
    (case repo_map r k of
       None \<Rightarrow> None
     | Some e \<Rightarrow> if unsigned_time now < entry_timeout e then Some e else None)"
proof (rule option_eqI)
  fix e
  have inv: "repo_inv (snd (expire now r))" by (rule expire_spec(3) [OF assms])
  show "repo_map (snd (expire now r)) k = Some e \<longleftrightarrow>
      (case repo_map r k of None \<Rightarrow> None | Some e \<Rightarrow> if unsigned_time now < entry_timeout e then Some e else None) = Some e"
    using qmap_find_iff [OF repo_inv_map [OF inv], of k e] qmap_find_iff [OF repo_inv_map [OF assms], of k e]
    by (auto simp: repo_map_def expire_spec(1) [OF assms] split: option.splits)
qed

text \<open>Absolute times of the future, in numbers.\<close>

lemma timeout_number:
  assumes "0 < t" "nat t + unat now < 2 ^ 32"
  shows "unat (absolute_timeout now (word_of_int t)) = nat t + unat now"
proof -
  have n: "unat (unsigned_time now) = unat now"
    using assms(2) by (simp add: unsigned_time_def unsigned_ucast_eq take_bit_nat_eq_self)
  have t: "unat (word_of_int t :: 32 word) = nat t"
    using assms by (simp add: unsigned_of_int take_bit_int_eq_self)
  have "word_of_int t \<noteq> (0 :: 32 word)" using t assms(1) by auto
  then show ?thesis
    using assms(2) n t by (simp add: absolute_timeout_def unat_word_ariths)
qed

section \<open>Group listings\<close>

text \<open>Names joined with the separator of the listing.\<close>

fun join_bel :: "bytes list \<Rightarrow> bytes" where
  "join_bel [] = []"
| "join_bel [k] = k"
| "join_bel (k # ks) = k @ [BEL] @ join_bel ks"

definition group_names :: "bytes \<Rightarrow> bytes \<Rightarrow> (bytes \<times> data_entry) list \<Rightarrow> bytes list" where
  "group_names g sep es = map (\<lambda>e. key_name sep (fst e)) (filter (in_group g) es)"

lemma join_bel_snoc: "ks \<noteq> [] \<Longrightarrow> join_bel (ks @ [k]) = join_bel ks @ [BEL] @ k"
  by (induction ks rule: join_bel.induct) auto

lemma join_bel_Nil: "[] \<notin> set ks \<Longrightarrow> join_bel ks = [] \<longleftrightarrow> ks = []"
  by (induction ks rule: join_bel.induct) auto

lemma join_bel_sub: "sublist (join_bel ks) (join_bel (ks @ [k])) \<and> sublist k (join_bel (ks @ [k]))"
proof (cases "ks = []")
  case False
  then show ?thesis
    using join_bel_snoc [OF False, of k] sublist_appendI [of k "join_bel ks @ [BEL]" "[]"]
      sublist_appendI [of "join_bel ks" "[]" "[BEL] @ k"] by simp
qed simp

lemma findKeys_loop_spec:
  assumes "[] \<notin> set ks"
  shows "\<exists>ks'. findKeys_loop g sep (join_bel ks) es = join_bel (ks @ ks') \<and> [] \<notin> set ks' \<and>
    subseq ks' (group_names g sep es) \<and>
    sublist (join_bel ks) (join_bel (ks @ ks')) \<and>
    (\<forall>k \<in> set (group_names g sep es). sublist k (join_bel (ks @ ks')))"
  using assms
proof (induction es arbitrary: ks)
  case Nil
  then show ?case by (auto intro!: exI [of _ "[]"] simp: group_names_def)
next
  case (Cons e es)
  let ?k = "key_name sep (fst e)"
  have skip: ?case if "in_group g e \<longrightarrow> sublist ?k (join_bel ks)"
    and "findKeys_loop g sep (join_bel ks) (e # es) = findKeys_loop g sep (join_bel ks) es"
  proof -
    from Cons.IH [OF Cons.prems] obtain ks' where
      "findKeys_loop g sep (join_bel ks) es = join_bel (ks @ ks')" "[] \<notin> set ks'"
      "subseq ks' (group_names g sep es)" "sublist (join_bel ks) (join_bel (ks @ ks'))"
      "\<forall>k \<in> set (group_names g sep es). sublist k (join_bel (ks @ ks'))"
      by blast
    then show ?thesis using that
      by (intro exI [of _ ks']) (auto simp: group_names_def intro: sublist_order.order_trans)
  qed
  show ?case
  proof (cases "in_group g e \<and> \<not> sublist ?k (join_bel ks)")
    case False
    have "findKeys_loop g sep (join_bel ks) (e # es) = findKeys_loop g sep (join_bel ks) es"
      using False by (auto simp: contains_iff Let_def)
    with False show ?thesis by (intro skip) auto
  next
    case True
    then have k: "?k \<noteq> []" by auto
    have join: "findKeys_loop g sep (join_bel ks) (e # es) = findKeys_loop g sep (join_bel (ks @ [?k])) es"
      using True join_bel_Nil [OF Cons.prems] join_bel_snoc [of ks ?k] by (cases "ks = []") (auto simp: contains_iff Let_def)
    have sub: "sublist (join_bel ks) (join_bel (ks @ [?k]))" "sublist ?k (join_bel (ks @ [?k]))"
      using join_bel_sub by blast+
    from Cons.IH [of "ks @ [?k]"] k Cons.prems obtain ks' where
      "findKeys_loop g sep (join_bel (ks @ [?k])) es = join_bel (ks @ ?k # ks')" "[] \<notin> set ks'"
      "subseq ks' (group_names g sep es)" "sublist (join_bel (ks @ [?k])) (join_bel (ks @ ?k # ks'))"
      "\<forall>j \<in> set (group_names g sep es). sublist j (join_bel (ks @ ?k # ks'))"
      by auto
    moreover have "group_names g sep (e # es) = ?k # group_names g sep es"
      using True by (simp add: group_names_def)
    ultimately have "findKeys_loop g sep (join_bel ks) (e # es) = join_bel (ks @ ?k # ks') \<and> [] \<notin> set (?k # ks') \<and>
      subseq (?k # ks') (group_names g sep (e # es)) \<and>
      sublist (join_bel ks) (join_bel (ks @ ?k # ks')) \<and>
      (\<forall>j \<in> set (group_names g sep (e # es)). sublist j (join_bel (ks @ ?k # ks')))"
      using join k sub by (auto intro: sublist_order.order_trans)
    then show ?thesis by blast
  qed
qed

lemma findKeys_spec:
  assumes "g \<noteq> []"
  obtains ks where "findKeys g sep r = join_bel ks" "subseq ks (group_names g sep (repo r))"
    "\<forall>k \<in> set (group_names g sep (repo r)). sublist k (findKeys g sep r)"
  using findKeys_loop_spec [of "[]" g sep "repo r"] assms by (auto simp: findKeys_def)

lemma occurs_at_single: "occurs_at s [c] i \<longleftrightarrow> i < length s \<and> s ! i = c"
  by (cases "i < length s") (auto simp: occurs_at_def take_Suc hd_drop_conv_nth)

lemma lastIndexOf_char:
  assumes "c \<notin> set q"
  shows "lastIndexOf (p @ c # q) [c] = int (length p)"
proof -
  let ?s = "p @ c # q"
  note occ = occurs_at_single [of ?s c]
  have "\<not> occurs_at ?s [c] i" if "length p < i" "i \<le> length ?s" for i
    using that assms by (auto simp: occ nth_append nth_Cons')
  then have none: "filter (occurs_at ?s [c]) (rev [Suc (length p)..<Suc (length ?s)]) = []"
    by (auto simp: filter_empty_conv simp del: upt_Suc)
  have "[0..<Suc (length ?s)] = [0..<length p] @ length p # [Suc (length p)..<Suc (length ?s)]"
    using upt_add_eq_append [of 0 "length p" "Suc (length q) + 1"] upt_conv_Cons [of "length p" "Suc (length ?s)"]
    by (simp add: ac_simps del: upt_Suc)
  moreover have "occurs_at ?s [c] (length p)" by (simp add: occ)
  ultimately have "filter (occurs_at ?s [c]) (rev [0..<Suc (length ?s)]) =
      length p # filter (occurs_at ?s [c]) (rev [0..<length p])"
    using none by (simp del: upt_Suc)
  then show ?thesis unfolding lastIndexOf_def by (simp del: upt_Suc)
qed

section \<open>The interface to the connection handler\<close>

text \<open>
  What a client of the repository relies on: lookups after storing and deleting, and an
  invariant. The lemmas below follow from these laws only.
\<close>

locale string_store =
  fixes lookup :: "bytes \<Rightarrow> 's \<Rightarrow> qbytes"
    and store :: "bytes \<Rightarrow> data_entry \<Rightarrow> 64 word \<Rightarrow> 's \<Rightarrow> 's"
    and delete :: "bytes \<Rightarrow> 's \<Rightarrow> 's"
    and inv :: "'s \<Rightarrow> bool"
  assumes store_inv: "inv s \<Longrightarrow> k \<noteq> [] \<Longrightarrow> inv (store k d t s)"
    and delete_inv: "inv s \<Longrightarrow> inv (delete k s)"
    and lookup_store: "inv s \<Longrightarrow> k \<noteq> [] \<Longrightarrow> j \<noteq> [] \<Longrightarrow>
      lookup j (store k d t s) = (if j = k then entry_value d else lookup j s)"
    and lookup_delete: "inv s \<Longrightarrow> k \<noteq> [] \<Longrightarrow> lookup j (delete k s) = (if j = k then None else lookup j s)"
begin

lemma lookup_two_stores:
  assumes "inv s" "k1 \<noteq> []" "k2 \<noteq> []" "k1 \<noteq> k2"
  shows "lookup k1 (store k2 d2 t2 (store k1 d1 t1 s)) = entry_value d1"
    and "lookup k2 (store k2 d2 t2 (store k1 d1 t1 s)) = entry_value d2"
    and "inv (store k2 d2 t2 (store k1 d1 t1 s))"
  using assms by (simp_all add: lookup_store store_inv)

lemma lookup_other_stores:
  "inv s \<Longrightarrow> j \<noteq> [] \<Longrightarrow> \<forall>(k, d, t) \<in> set ops. k \<noteq> [] \<and> k \<noteq> j \<Longrightarrow>
     lookup j (fold (\<lambda>(k, d, t). store k d t) ops s) = lookup j s"
  by (induction ops arbitrary: s) (auto simp: lookup_store store_inv)

lemma lookup_deleted: "inv s \<Longrightarrow> k \<noteq> [] \<Longrightarrow> isNull (lookup k (delete k (store k d t s)))"
  by (simp add: lookup_delete store_inv)

end

interpretation rs: string_store find "\<lambda>k d t r. fst (add k d t r)" "\<lambda>k r. snd (remove k r)" repo_inv
  by unfold_locales (simp_all add: add_inv remove_inv find_add find_remove)

end
