(* ===== verification/Secure.thy ===== *)
theory Secure
  imports Prelude
begin

text \<open>
  Peer credentials of a connected socket, \<^verbatim>\<open>src/src/kdesud/secure.cpp\<close> and
  \<^verbatim>\<open>secure.h\<close>. The four bodies that the preprocessor chooses from are the four
  platforms; what the system call reported is an argument, \<^const>\<open>None\<close> for a failure.
  Process, group and user numbers are 32-bit values, with -1 for "unknown".
\<close>

datatype sec_platform = Getpeereid | Getpeerucred | So_peercred | Unsupported

record peer_cred =
  cred_pid :: "32 word"
  cred_gid :: "32 word"
  cred_uid :: "32 word"

record socket_security =
  sec_pid :: "32 word"
  sec_gid :: "32 word"
  sec_uid :: "32 word"

definition no_credentials :: socket_security where
  "no_credentials = \<lparr>sec_pid = -1, sec_gid = -1, sec_uid = -1\<rparr>"

text \<open>The constructor, for each platform; \<open>me\<close> is \<^verbatim>\<open>getuid()\<close>.\<close>

definition new_socket_security :: "sec_platform \<Rightarrow> peer_cred option \<Rightarrow> 32 word \<Rightarrow> socket_security" where
  "new_socket_security pl reported me =
     (case pl of
        Getpeereid \<Rightarrow>
          (case reported of None \<Rightarrow> no_credentials
           | Some c \<Rightarrow> no_credentials\<lparr>sec_uid := cred_uid c, sec_gid := cred_gid c, sec_pid := -1\<rparr>)
      | Getpeerucred \<Rightarrow>
          (case reported of None \<Rightarrow> no_credentials
           | Some c \<Rightarrow> no_credentials\<lparr>sec_uid := cred_uid c, sec_gid := cred_gid c, sec_pid := -1\<rparr>)
      | So_peercred \<Rightarrow>
          (case reported of None \<Rightarrow> no_credentials
           | Some c \<Rightarrow> no_credentials\<lparr>sec_pid := cred_pid c, sec_gid := cred_gid c, sec_uid := cred_uid c\<rparr>)
      | Unsupported \<Rightarrow> no_credentials\<lparr>sec_uid := me\<rparr>)"

definition peerUid :: "socket_security \<Rightarrow> 32 word" where
  "peerUid s = sec_uid s"

definition peerPid :: "socket_security \<Rightarrow> 32 word" where
  "peerPid s = sec_pid s"

definition peerGid :: "socket_security \<Rightarrow> 32 word" where
  "peerGid s = sec_gid s"

text \<open>
  Outside the unsupported platforms, the peer's user number is ours only if the system
  reported it so (our own is never the reserved -1).
\<close>

lemma peerUid_me:
  assumes "me \<noteq> -1"
  shows "peerUid (new_socket_security pl reported me) = me \<longleftrightarrow>
    pl = Unsupported \<or> (\<exists>c. reported = Some c \<and> cred_uid c = me)"
  using assms
  by (cases pl; cases reported) (auto simp: new_socket_security_def no_credentials_def peerUid_def)

end
