(* ===== verification/Pty.thy ===== *)
theory Pty
  imports Qt_Bytes
begin

unbundle bit_operations_syntax

text \<open>
  The pseudo terminal to a child process, \<^verbatim>\<open>src/src/ptyprocess.cpp\<close>. \<open>pty\<close> holds the
  members of \<^verbatim>\<open>PtyProcess\<close> and of its private class, together with what is still to come
  from the system, as scripts that the operations consume, and what was done to it: the bytes
  written to the terminal, those shown on standard output, and the signals sent.

  \<^const>\<open>None\<close> is an operation that does not return because its script has ended (the child
  is silent). The lemmas are on the line buffer, on the search for the exit string, on what
  the caller gets as exit code, and on which scripts are long enough for an operation to return.
\<close>

section \<open>State\<close>

text \<open>One round of \<^verbatim>\<open>fcntl(F_GETFL)\<close>, \<^verbatim>\<open>fcntl(F_SETFL)\<close> and \<^verbatim>\<open>read\<close>, repeated on \<^verbatim>\<open>EINTR\<close>.\<close>

record read_call =
  fl_get :: int
  fl_set_ok :: bool
  read_answers :: "recv_result list"

text \<open>
  What \<^verbatim>\<open>checkPid\<close> reads from the configuration and gets from \<^verbatim>\<open>kill(pid, 0)\<close>, and the answer
  of \<^verbatim>\<open>tcGetAttr\<close>, of which only the echo bit matters.
\<close>

type_synonym slave_poll = "(bytes \<times> bool) \<times> bool option"

record pty =
  inputBuffer :: bytes
  wantLocalEcho :: bool
  has_pty :: bool
  m_terminal :: bool
  m_erase :: bool
  m_exitString :: bytes
  child_pid :: int
  extra_env :: "bytes list"
  reads :: "read_call list"
  slave_polls :: "slave_poll list"
  more_output :: "bool list"
  written :: "bytes list"
  shown :: "bytes list"
  signals :: "int list"

definition SIGTERM :: int where "SIGTERM = 15"
definition SIGKILL :: int where "SIGKILL = 9"

text \<open>The bit of \<^verbatim>\<open>O_NONBLOCK\<close>.\<close>

definition O_NONBLOCK :: int where "O_NONBLOCK = 2048"

definition set_blocking :: "bool \<Rightarrow> int \<Rightarrow> int" where
  "set_blocking block flags = (if block then flags AND NOT O_NONBLOCK else flags OR O_NONBLOCK)"

section \<open>Reading and writing\<close>

fun read_loop :: "recv_result list \<Rightarrow> bytes option" where
  "read_loop [] = None"
| "read_loop (RecvEINTR # as) = read_loop as"
| "read_loop (RecvError # as) = Some []"
| "read_loop (RecvEOF # as) = Some []"
| "read_loop (Received d # as) = Some d"

definition readAll :: "bool \<Rightarrow> pty \<Rightarrow> (bytes \<times> pty) option" where
  "readAll block p =
     (let ret = inputBuffer p;
          block = (if ret \<noteq> [] then False else block);
          p = p\<lparr>inputBuffer := []\<rparr>
      in case reads p of
           [] \<Rightarrow> None
         | c # cs \<Rightarrow>
             (let p = p\<lparr>reads := cs\<rparr>;
                  flags = set_blocking block (fl_get c)
              in if fl_get c < 0 then Some (ret, p)
                 else if flags \<noteq> fl_get c \<and> \<not> fl_set_ok c then Some (ret, p)
                 else map_option (\<lambda>d. (ret @ d, p)) (read_loop (read_answers c))))"

text \<open>The result is \<^const>\<open>None\<close> inside, the null array, if nothing could be read.\<close>

definition readLine :: "bool \<Rightarrow> pty \<Rightarrow> (qbytes \<times> pty) option" where
  "readLine block p =
     (case readAll block p of
        None \<Rightarrow> None
      | Some (buf, p) \<Rightarrow>
          if buf \<noteq> [] then
            let pos = indexOf_char buf NL in
            if pos = -1 then Some (Some buf, p\<lparr>inputBuffer := []\<rparr>)
            else Some (Some (left buf pos), p\<lparr>inputBuffer := remove_front buf (nat (pos + 1))\<rparr>)
          else Some (None, p\<lparr>inputBuffer := buf\<rparr>))"

definition write_fd :: "bytes \<Rightarrow> pty \<Rightarrow> pty" where
  "write_fd d p = p\<lparr>written := written p @ [d]\<rparr>"

definition writeLine :: "bytes \<Rightarrow> bool \<Rightarrow> pty \<Rightarrow> pty" where
  "writeLine line addnl p =
     (let p = (if line \<noteq> [] then write_fd line p else p)
      in if addnl then write_fd [NL] p else p)"

definition unreadLine :: "bytes \<Rightarrow> bool \<Rightarrow> pty \<Rightarrow> pty" where
  "unreadLine line addnl p =
     (let tmp = (if addnl then line @ [NL] else line)
      in if tmp \<noteq> [] then p\<lparr>inputBuffer := tmp @ inputBuffer p\<rparr> else p)"

definition enableLocalEcho :: "bool \<Rightarrow> pty \<Rightarrow> pty" where
  "enableLocalEcho enable p = p\<lparr>wantLocalEcho := enable\<rparr>"

text \<open>
  A wait for output, here of 100 ms: \<^verbatim>\<open>select\<close> on the one descriptor tells how many are
  ready. The answers are a script.
\<close>

definition waitMS :: "pty \<Rightarrow> (int \<times> pty) option" where
  "waitMS p = (case more_output p of
     [] \<Rightarrow> None
   | avail # later \<Rightarrow> Some (if avail then 1 else 0, p\<lparr>more_output := later\<rparr>))"

lemma waitMS_answer [simp]: "more_output p = avail # later \<Longrightarrow> waitMS p = Some (if avail then 1 else 0, p\<lparr>more_output := later\<rparr>)"
  by (simp add: waitMS_def)

lemma waitMS_frame: "waitMS p = Some (ret, q) \<Longrightarrow> reads q = reads p \<and> written q = written p \<and> inputBuffer q = inputBuffer p"
  by (auto simp: waitMS_def split: list.splits)

text \<open>
  The constructor leaves the number of the child as it finds it. The scripts are those of a silent
  terminal.
\<close>

definition new_pty :: "int \<Rightarrow> pty" where
  "new_pty garbage = \<lparr>inputBuffer = [], wantLocalEcho = True, has_pty = False, m_terminal = False, m_erase = False,
     m_exitString = [], child_pid = garbage, extra_env = [], reads = [], slave_polls = [], more_output = [],
     written = [], shown = [], signals = []\<rparr>"

text \<open>The descriptor of the terminal, if there is one, and the other members that can be asked for.\<close>

definition pty_fd :: "int \<Rightarrow> pty \<Rightarrow> int" where
  "pty_fd masterFd p = (if has_pty p then masterFd else -1)"

definition pty_pid :: "pty \<Rightarrow> int" where
  "pty_pid p = child_pid p"

definition pty_environment :: "pty \<Rightarrow> bytes list" where
  "pty_environment p = extra_env p"

text \<open>The settings.\<close>

definition setEnvironment :: "bytes list \<Rightarrow> pty \<Rightarrow> pty" where
  [simp]: "setEnvironment env p = p\<lparr>extra_env := env\<rparr>"

definition setExitString :: "bytes \<Rightarrow> pty \<Rightarrow> pty" where
  [simp]: "setExitString exit p = p\<lparr>m_exitString := exit\<rparr>"

definition setTerminal :: "bool \<Rightarrow> pty \<Rightarrow> pty" where
  [simp]: "setTerminal terminal p = p\<lparr>m_terminal := terminal\<rparr>"

definition setErase :: "bool \<Rightarrow> pty \<Rightarrow> pty" where
  [simp]: "setErase erase p = p\<lparr>m_erase := erase\<rparr>"

section \<open>Waiting for the child\<close>

definition checkPid :: "bytes \<Rightarrow> bool \<Rightarrow> bool" where
  "checkPid superUserCommand kill_ok = (if superUserCommand = ''sudo'' then True else kill_ok)"

text \<open>
  \<^verbatim>\<open>waitSlave\<close>: poll until the terminal no longer echoes. The wait of 10 ms is one element
  of the script.
\<close>

fun waitSlave_loop :: "slave_poll list \<Rightarrow> (int \<times> slave_poll list) option" where
  "waitSlave_loop [] = None"
| "waitSlave_loop (((superUserCommand, kill_ok), echo) # ps) =
     (if \<not> checkPid superUserCommand kill_ok then Some (-1, ps)
      else case echo of
        None \<Rightarrow> Some (-1, ps)
      | Some True \<Rightarrow> waitSlave_loop ps
      | Some False \<Rightarrow> Some (0, ps))"

definition waitSlave :: "pty \<Rightarrow> (int \<times> pty) option" where
  "waitSlave p = map_option (\<lambda>(ret, ps). (ret, p\<lparr>slave_polls := ps\<rparr>)) (waitSlave_loop (slave_polls p))"

definition kill_child :: "int \<Rightarrow> pty \<Rightarrow> pty" where
  "kill_child sig p = p\<lparr>signals := signals p @ [sig]\<rparr>"

definition P_Error :: int where "P_Error = -1"
definition P_NotExited :: int where "P_NotExited = -2"
definition P_Killed :: int where "P_Killed = -3"

text \<open>The answer of \<^verbatim>\<open>waitpid(pid, &state, WNOHANG)\<close>: an error, another number than \<open>pid\<close>, or the state.\<close>

datatype wait_answer = Wait_ECHILD | Wait_failed | Wait_other | Wait_state int

definition checkPidExited :: "wait_answer \<Rightarrow> int" where
  "checkPidExited w =
     (case w of
        Wait_ECHILD \<Rightarrow> P_Error
      | Wait_failed \<Rightarrow> P_Error
      | Wait_state state \<Rightarrow> if WIFEXITED state then WEXITSTATUS state else P_Killed
      | Wait_other \<Rightarrow> P_NotExited)"

text \<open>
  The search for the exit string in what has been read so far: the number of times the child
  is killed, and what is kept for the next time. Each round but the last drops a line.
\<close>

function scan_exit :: "bytes \<Rightarrow> bytes \<Rightarrow> nat \<Rightarrow> nat \<times> bytes" where
  "scan_exit exitString remainder kills =
     (if length remainder \<ge> length exitString then
        let hit = startsWith remainder exitString;
            remainder' = (if hit then remove_front remainder (length exitString) else remainder);
            kills' = (if hit then kills + 1 else kills);
            off = indexOf_char remainder' NL
        in if off < 0 then (kills', remainder')
           else scan_exit exitString (remove_front remainder' (nat (off + 1))) kills'
      else (kills, remainder))"
  by pat_completeness auto
termination
proof (relation "measure (\<lambda>(e, r, k). length r)", simp)
  fix e r :: bytes and k hit r' k' off
  assume "r' = (if hit then remove_front r (length e) else r)" "off = indexOf_char r' NL" "\<not> off < 0"
  with indexOf_char_less [of r' NL] show "((e, remove_front r' (nat (off + 1)), k'), e, r, k) \<in> measure (\<lambda>(e, r, k). length r)"
    by (auto simp: remove_front_def split: if_splits)
qed

declare scan_exit.simps [simp del]

text \<open>The inner loop: read and show while there is output. \<open>readAll\<close> uses up one call each time.\<close>

lemma readAll_reads: "readAll b p = Some (d, p') \<Longrightarrow> length (reads p') < length (reads p)"
  by (auto simp: readAll_def Let_def split: list.splits if_splits)

lemma readLine_reads: "readLine b p = Some (l, p') \<Longrightarrow> length (reads p') < length (reads p)"
  by (auto simp: readLine_def Let_def split: option.splits if_splits prod.splits dest!: readAll_reads)

function copy_output :: "bytes \<Rightarrow> pty \<Rightarrow> (bytes \<times> pty) option" where
  "copy_output remainder p =
     (case readAll False p of
        None \<Rightarrow> None
      | Some (output, p) \<Rightarrow>
          if output = [] then Some (remainder, p)
          else
            let p = (if m_terminal p then p\<lparr>shown := shown p @ [output]\<rparr> else p) in
            if m_exitString p \<noteq> [] then
              let (kills, remainder) = scan_exit (m_exitString p) (remainder @ output) 0
              in copy_output remainder (p\<lparr>signals := signals p @ replicate kills SIGTERM\<rparr>)
            else copy_output remainder p)"
  by pat_completeness auto
termination
  by (relation "measure (\<lambda>(r, p). length (reads p))") (auto dest!: readAll_reads)

declare copy_output.simps [simp del]

text \<open>The outer loop: one element of the script per turn, what \<^verbatim>\<open>select\<close> and \<^verbatim>\<open>waitpid\<close> answer.\<close>

datatype select_answer = Sel_EINTR | Sel_error | Sel_none | Sel_ready

fun wait_loop :: "(select_answer \<times> wait_answer) list \<Rightarrow> bytes \<Rightarrow> pty \<Rightarrow> (int \<times> pty) option" where
  "wait_loop [] remainder p = None"
| "wait_loop ((sel, w) # rounds) remainder p =
     (if sel = Sel_error then Some (-1, p)
      else
        (case (if sel = Sel_ready then copy_output remainder p else Some (remainder, p)) of
           None \<Rightarrow> None
         | Some (remainder, p) \<Rightarrow>
             let ret = checkPidExited w in
             if ret = P_Error then Some (if w = Wait_ECHILD then 0 else 1, p)
             else if ret = P_Killed then Some (0, p)
             else if ret = P_NotExited then wait_loop rounds remainder p
             else Some (ret, p)))"

definition waitForChild :: "(select_answer \<times> wait_answer) list \<Rightarrow> pty \<Rightarrow> (int \<times> pty) option" where
  "waitForChild rounds p = wait_loop rounds [] p"

section \<open>The line buffer\<close>

lemma readLine_cases:
  assumes "readLine b p = Some (l, p')"
  obtains (silent) q where "readAll b p = Some ([], q)" "l = None" "p' = q\<lparr>inputBuffer := []\<rparr>"
  | (partial) buf q where "readAll b p = Some (buf, q)" "buf \<noteq> []" "NL \<notin> set buf" "l = Some buf"
      "p' = q\<lparr>inputBuffer := []\<rparr>"
  | (line) x r q where "readAll b p = Some (x @ NL # r, q)" "NL \<notin> set x" "l = Some x" "p' = q\<lparr>inputBuffer := r\<rparr>"
proof -
  from assms obtain buf q where r: "readAll b p = Some (buf, q)" by (auto simp: readLine_def split: option.splits)
  consider "buf = []" | "buf \<noteq> []" "NL \<notin> set buf" | x s where "buf = x @ NL # s" "NL \<notin> set x"
    by (metis split_list_first)
  then show ?thesis
  proof cases
    case 1
    then show ?thesis using silent r assms by (simp add: readLine_def)
  next
    case 2
    then show ?thesis using partial r assms by (simp add: readLine_def)
  next
    case 3
    then show ?thesis
      using line r assms indexOf_char_first [of NL x s]
      by (simp add: readLine_def left_def remove_front_def nat_add_distrib)
  qed
qed

text \<open>A line put back is the next line, and what is read meanwhile comes after it.\<close>

lemma readAll_buffer:
  assumes "readAll b p = Some (buf, q)"
  shows "\<exists>d. buf = inputBuffer p @ d \<and> q = p\<lparr>inputBuffer := [], reads := tl (reads p)\<rparr>"
  using assms by (auto simp: readAll_def Let_def split: list.splits if_splits)

lemma readLine_unread:
  assumes "NL \<notin> set x" "readLine b (unreadLine x True p) = Some (l, p')"
  shows "l = Some x \<and> (\<exists>d. p' = p\<lparr>inputBuffer := inputBuffer p @ d, reads := tl (reads p)\<rparr>)"
  using assms(2)
proof (cases rule: readLine_cases)
  case (silent q)
  then show ?thesis using readAll_buffer [OF silent(1)] by (auto simp: unreadLine_def)
next
  case (partial buf q)
  then show ?thesis using readAll_buffer [OF partial(1)] by (auto simp: unreadLine_def)
next
  case (line y r q)
  from readAll_buffer [OF line(1)] obtain d where d: "y @ NL # r = x @ NL # inputBuffer p @ d"
    "q = p\<lparr>inputBuffer := [], reads := tl (reads p)\<rparr>"
    by (auto simp: unreadLine_def)
  then have "y = x \<and> r = inputBuffer p @ d"
    using append_stop_eq [OF line(2) assms(1)] by simp
  then have "l = Some x" "p' = p\<lparr>inputBuffer := inputBuffer p @ d, reads := tl (reads p)\<rparr>"
    using line d(2) by simp_all
  then show ?thesis by blast
qed

section \<open>The exit string\<close>

text \<open>The string occurs at the start of a line; \<open>b\<close> tells whether we are at one.\<close>

fun at_line_start :: "bytes \<Rightarrow> bool \<Rightarrow> bytes \<Rightarrow> bool" where
  "at_line_start e b [] = (b \<and> e = [])"
| "at_line_start e b (c # s) = (b \<and> prefix e (c # s) \<or> at_line_start e (c = NL) s)"

lemma at_line_start_line:
  "NL \<notin> set x \<Longrightarrow> at_line_start e b (x @ NL # z) \<longleftrightarrow> b \<and> prefix e (x @ NL # z) \<or> at_line_start e True z"
  by (induction x arbitrary: b) auto

lemma at_line_start_one:
  "NL \<notin> set x \<Longrightarrow> e \<noteq> [] \<Longrightarrow> at_line_start e b x \<longleftrightarrow> b \<and> prefix e x"
  by (induction x arbitrary: b) auto

lemma at_line_start_short: "length s < length e \<Longrightarrow> \<not> at_line_start e b s"
  by (induction s arbitrary: b) (auto dest: prefix_length_le)

lemma at_line_start_prefix: "prefix e s \<Longrightarrow> at_line_start e True s"
  by (cases s) auto

lemma at_line_start_append: "at_line_start e b s \<Longrightarrow> at_line_start e b (s @ d)"
proof (induction s arbitrary: b)
  case Nil
  then show ?case by (cases d) auto
next
  case (Cons c s)
  then show ?case using prefix_prefix [of e "c # s" d] by auto
qed

lemma prefix_append_long: "length e \<le> length r \<Longrightarrow> prefix e (r @ d) \<longleftrightarrow> prefix e r"
  by (auto simp: prefix_def append_eq_append_conv2)

lemma scan_exit_mono: "k \<le> fst (scan_exit e r k)"
proof (induction e r k rule: scan_exit.induct)
  case (1 e r k)
  then show ?case by (subst scan_exit.simps) (auto simp: Let_def split: if_splits intro: Suc_leD)
qed

lemma scan_exit_spec:
  assumes "e \<noteq> []" "scan_exit e r k = (k', r')"
  shows "(k < k' \<longleftrightarrow> at_line_start e True r) \<and>
    (k' = k \<longrightarrow> (\<forall>d. at_line_start e True (r @ d) \<longleftrightarrow> at_line_start e True (r' @ d)))"
  using assms
proof (induction e r k arbitrary: k' r' rule: scan_exit.induct)
  case (1 e r k)
  note res = "1.prems"(2)
  show ?case
  proof (cases "length e \<le> length r")
    case False
    then have "k' = k" "r' = r" using res by (simp_all add: scan_exit.simps [of e r])
    then show ?thesis using False by (simp add: at_line_start_short)
  next
    case long: True
    show ?thesis
    proof (cases "startsWith r e")
      case True
      have "k + 1 \<le> k'"
        using res long True scan_exit_mono [of "k + 1" e]
        by (auto simp: scan_exit.simps [of e r] Let_def split: if_splits) (metis Suc_le_eq fst_conv)+
      moreover have "at_line_start e True r" using True by (simp add: startsWith_iff at_line_start_prefix)
      ultimately show ?thesis by simp
    next
      case miss: False
      then have no: "\<not> prefix e r" by (simp add: startsWith_iff)
      show ?thesis
      proof (cases "NL \<in> set r")
        case False
        then have "indexOf_char r NL = -1" by simp
        then have "k' = k" "r' = r" using res long miss by (simp_all add: scan_exit.simps [of e r] Let_def del: indexOf_char_neg)
        then show ?thesis using no False "1.prems"(1) by (simp add: at_line_start_one)
      next
        case True
        then obtain x y where r: "r = x @ NL # y" "NL \<notin> set x" by (metis split_list_first)
        then have off: "indexOf_char r NL = int (length x)" by (simp add: indexOf_char_first)
        have rest: "scan_exit e y k = (k', r')"
          using res long miss off unfolding r(1)
          by (simp add: scan_exit.simps [of e "x @ NL # y"] remove_front_def nat_add_distrib Let_def)
        have IH: "(k < k' \<longleftrightarrow> at_line_start e True y) \<and>
            (k' = k \<longrightarrow> (\<forall>d. at_line_start e True (y @ d) \<longleftrightarrow> at_line_start e True (r' @ d)))"
          using "1.IH" [OF long refl refl refl refl] miss off "1.prems"(1) rest r
          by (simp add: remove_front_def nat_add_distrib)
        have "at_line_start e True (r @ d) \<longleftrightarrow> at_line_start e True (y @ d)" for d
          using no long at_line_start_line [OF r(2), of e True "y @ d"] prefix_append_long [of e r d] r(1) by simp
        from this [of "[]"] this IH show ?thesis by simp
      qed
    qed
  qed
qed

text \<open>
  What happened between two states of the terminal: output was shown, and the child was sent
  some number of signals; \<open>found\<close> relates them to the output, given what was kept before.
\<close>

definition copied :: "pty \<Rightarrow> bytes list \<Rightarrow> nat \<Rightarrow> pty \<Rightarrow> bool" where
  "copied p outs k p' \<longleftrightarrow> shown p' = shown p @ outs \<and> signals p' = signals p @ replicate k SIGTERM \<and>
     m_terminal p' = m_terminal p \<and> m_exitString p' = m_exitString p"

lemma copied_refl: "copied p [] 0 p"
  by (simp add: copied_def)

lemma copied_trans: "copied p o1 k1 q \<Longrightarrow> copied q o2 k2 r \<Longrightarrow> copied p (o1 @ o2) (k1 + k2) r"
  by (simp add: copied_def replicate_add)

lemma readAll_copied: "readAll b p = Some (d, q) \<Longrightarrow> copied p [] 0 q"
  using readAll_buffer by (fastforce simp: copied_def)

text \<open>One turn of the inner loop.\<close>

lemma copy_output_step:
  assumes "m_terminal p" "m_exitString p \<noteq> []" "copy_output rem p = Some (rem', p')"
  obtains (stop) q where "readAll False p = Some ([], q)" "rem' = rem" "p' = q"
  | (more) out1 q rem1 k p1 where "readAll False p = Some (out1, q)" "out1 \<noteq> []"
      "scan_exit (m_exitString p) (rem @ out1) 0 = (k, rem1)" "copied p [out1] k p1"
      "length (reads p1) < length (reads p)" "copy_output rem1 p1 = Some (rem', p')"
proof -
  from assms(3) obtain out1 q where r: "readAll False p = Some (out1, q)"
    by (auto simp: copy_output.simps [of rem p] split: option.splits)
  have c: "m_terminal q" "m_exitString q = m_exitString p" "shown q = shown p" "signals q = signals p"
    using readAll_copied [OF r] assms(1) by (simp_all add: copied_def)
  show ?thesis
  proof (cases "out1 = []")
    case True
    then show ?thesis using stop r assms(3) by (simp add: copy_output.simps [of rem p])
  next
    case False
    obtain k rem1 where s: "scan_exit (m_exitString p) (rem @ out1) 0 = (k, rem1)" by fastforce
    let ?p1 = "q\<lparr>shown := shown q @ [out1], signals := signals q @ replicate k SIGTERM\<rparr>"
    have "copy_output rem1 ?p1 = Some (rem', p')"
      using assms(2,3) r c s False by (simp add: copy_output.simps [of rem p])
    then show ?thesis
      using more [OF r False s, of ?p1] c assms(1) readAll_reads [OF r] by (simp add: copied_def)
  qed
qed

lemma copy_output_copied:
  "m_terminal p \<Longrightarrow> m_exitString p \<noteq> [] \<Longrightarrow> copy_output rem p = Some (rem', p') \<Longrightarrow> \<exists>outs k. copied p outs k p'"
proof (induction "length (reads p)" arbitrary: p rem rule: less_induct)
  case less
  from less.prems show ?case
  proof (cases rule: copy_output_step)
    case (stop q)
    then show ?thesis using readAll_copied by blast
  next
    case (more out1 q rem1 k p1)
    then have "m_terminal p1" "m_exitString p1 \<noteq> []" using less.prems by (simp_all add: copied_def)
    from less.hyps [OF more(5) this more(6)] more(4) show ?thesis using copied_trans by blast
  qed
qed

definition found :: "bytes \<Rightarrow> bytes \<Rightarrow> bytes list \<Rightarrow> nat \<Rightarrow> bytes \<Rightarrow> bool" where
  "found e rem outs k rem' \<longleftrightarrow> (0 < k \<longleftrightarrow> at_line_start e True (rem @ concat outs)) \<and>
     (k = 0 \<longrightarrow> (\<forall>d. at_line_start e True (rem @ concat outs @ d) \<longleftrightarrow> at_line_start e True (rem' @ d)))"

lemma found_hit: "0 < k \<Longrightarrow> at_line_start e True (rem @ concat outs) \<Longrightarrow> found e rem outs k rem'"
  by (simp add: found_def)

lemma found_trans: "found e rem o1 0 rem1 \<Longrightarrow> found e rem1 o2 k rem' \<Longrightarrow> found e rem (o1 @ o2) k rem'"
  by (auto simp: found_def)

lemma copy_output_found:
  assumes "m_terminal p" "m_exitString p = e" "e \<noteq> []" "copy_output rem p = Some (rem', p')"
    and "\<not> at_line_start e True rem"
  shows "\<exists>outs k. copied p outs k p' \<and> found e rem outs k rem'"
  using assms
proof (induction "length (reads p)" arbitrary: p rem rule: less_induct)
  case less
  have e: "m_exitString p \<noteq> []" using less.prems(2,3) by simp
  from less.prems(1) e less.prems(4) show ?case
  proof (cases rule: copy_output_step)
    case (stop q)
    have "found e rem [] 0 rem'" using less.prems(5) stop by (simp add: found_def)
    then show ?thesis using readAll_copied [OF stop(1)] stop by blast
  next
    case (more out1 q rem1 k p1)
    have p1: "m_terminal p1" "m_exitString p1 = e" "m_exitString p1 \<noteq> []"
      using more(4) less.prems(1-3) by (simp_all add: copied_def)
    have s: "(0 < k \<longleftrightarrow> at_line_start e True (rem @ out1)) \<and>
        (k = 0 \<longrightarrow> (\<forall>d. at_line_start e True ((rem @ out1) @ d) \<longleftrightarrow> at_line_start e True (rem1 @ d)))"
      using scan_exit_spec [OF less.prems(3), of "rem @ out1" 0 k rem1] more(3) less.prems(2) by simp
    show ?thesis
    proof (cases "k = 0")
      case True
      then have f: "found e rem [out1] 0 rem1" using s by (simp add: found_def)
      have "\<not> at_line_start e True rem1" using s True by (metis append_Nil2 less_irrefl)
      from less.hyps [OF more(5) p1(1,2) less.prems(3) more(6) this] obtain outs k' where
        "copied p1 outs k' p'" "found e rem1 outs k' rem'" by blast
      then show ?thesis using copied_trans [OF more(4)] found_trans [OF f] True by fastforce
    next
      case False
      obtain outs k' where c: "copied p1 outs k' p'" using copy_output_copied [OF p1(1,3) more(6)] by blast
      have "at_line_start e True (rem @ concat ([out1] @ outs))"
        using s False at_line_start_append [of e True "rem @ out1" "concat outs"] by simp
      then show ?thesis using copied_trans [OF more(4) c] found_hit [of "k + k'" e rem "[out1] @ outs" rem'] False by blast
    qed
  qed
qed

lemma wait_turn:
  assumes "wait_loop ((sel, w) # rounds) rem p = Some (ret, p')"
  obtains (failed) "sel = Sel_error" "p' = p"
  | (last) rem1 where "(if sel = Sel_ready then copy_output rem p else Some (rem, p)) = Some (rem1, p')"
  | (more) rem1 p1 where "(if sel = Sel_ready then copy_output rem p else Some (rem, p)) = Some (rem1, p1)"
      "wait_loop rounds rem1 p1 = Some (ret, p')"
proof (cases "sel = Sel_error")
  case True
  then show ?thesis using failed assms by simp
next
  case False
  then obtain rem1 p1 where c: "(if sel = Sel_ready then copy_output rem p else Some (rem, p)) = Some (rem1, p1)"
    using assms by (auto split: option.splits)
  show ?thesis
  proof (cases "checkPidExited w = P_NotExited")
    case True
    then have "wait_loop rounds rem1 p1 = Some (ret, p')"
      using assms False c by (simp add: Let_def P_Error_def P_Killed_def P_NotExited_def)
    then show ?thesis using more c by blast
  next
    case x: False
    then have "p' = p1" using assms False c by (simp add: Let_def split: if_splits)
    then show ?thesis using last c by blast
  qed
qed

lemma turn_copied:
  assumes "m_terminal p" "m_exitString p \<noteq> []"
    and "(if sel = Sel_ready then copy_output rem p else Some (rem, p)) = Some (rem1, p1)"
  shows "\<exists>outs k. copied p outs k p1"
  using assms copy_output_copied [of p rem rem1 p1] copied_refl [of p] by (cases "sel = Sel_ready") auto

lemma turn_found:
  assumes "m_terminal p" "m_exitString p = e" "e \<noteq> []" "\<not> at_line_start e True rem"
    and "(if sel = Sel_ready then copy_output rem p else Some (rem, p)) = Some (rem1, p1)"
  shows "\<exists>outs k. copied p outs k p1 \<and> found e rem outs k rem1"
proof (cases "sel = Sel_ready")
  case True
  then show ?thesis using copy_output_found [OF assms(1-3) _ assms(4)] assms(5) by simp
next
  case False
  have "found e rem [] 0 rem" using assms(4) by (simp add: found_def)
  then show ?thesis using copied_refl [of p] False assms(5) by auto
qed

lemma wait_loop_copied:
  "m_terminal p \<Longrightarrow> m_exitString p \<noteq> [] \<Longrightarrow> wait_loop rounds rem p = Some (ret, p') \<Longrightarrow> \<exists>outs k. copied p outs k p'"
proof (induction rounds arbitrary: rem p)
  case (Cons r rounds)
  obtain sel w where r: "r = (sel, w)" by fastforce
  from Cons.prems(3) show ?case unfolding r
  proof (cases rule: wait_turn)
    case failed
    then show ?thesis using copied_refl by blast
  next
    case (last rem1)
    then show ?thesis using turn_copied Cons.prems(1,2) by blast
  next
    case (more rem1 p1)
    obtain outs k where c: "copied p outs k p1" using turn_copied [OF Cons.prems(1,2) more(1)] by blast
    then have "m_terminal p1" "m_exitString p1 \<noteq> []" using Cons.prems by (simp_all add: copied_def)
    from Cons.IH [OF this more(2)] c show ?thesis using copied_trans by blast
  qed
qed simp

lemma wait_loop_found:
  "m_terminal p \<Longrightarrow> m_exitString p = e \<Longrightarrow> e \<noteq> [] \<Longrightarrow> wait_loop rounds rem p = Some (ret, p') \<Longrightarrow>
    \<not> at_line_start e True rem \<Longrightarrow>
    \<exists>outs k. copied p outs k p' \<and> (0 < k \<longleftrightarrow> at_line_start e True (rem @ concat outs))"
proof (induction rounds arbitrary: rem p)
  case (Cons r rounds)
  obtain sel w where r: "r = (sel, w)" by fastforce
  from Cons.prems(4) show ?case unfolding r
  proof (cases rule: wait_turn)
    case failed
    then show ?thesis using copied_refl [of p] Cons.prems(5) by (intro exI [of _ "[]"] exI [of _ 0]) simp
  next
    case (last rem1)
    then show ?thesis using turn_found [OF Cons.prems(1-3,5)] by (fastforce simp: found_def)
  next
    case (more rem1 p1)
    obtain outs k where c: "copied p outs k p1" "found e rem outs k rem1"
      using turn_found [OF Cons.prems(1-3,5) more(1)] by blast
    then have p1: "m_terminal p1" "m_exitString p1 = e" using Cons.prems by (simp_all add: copied_def)
    show ?thesis
    proof (cases "k = 0")
      case True
      then have "\<not> at_line_start e True rem1" using c(2) by (metis append_Nil2 found_def less_irrefl)
      from Cons.IH [OF p1 Cons.prems(3) more(2) this] obtain outs' k' where
        i: "copied p1 outs' k' p'" "0 < k' \<longleftrightarrow> at_line_start e True (rem1 @ concat outs')" by blast
      have "copied p (outs @ outs') k' p'" using copied_trans [OF c(1) i(1)] True by simp
      moreover have "0 < k' \<longleftrightarrow> at_line_start e True (rem @ concat (outs @ outs'))"
        using c(2) i(2) True by (simp add: found_def)
      ultimately show ?thesis by blast
    next
      case False
      obtain outs' k' where i: "copied p1 outs' k' p'"
        using wait_loop_copied [OF p1(1) _ more(2)] p1(2) Cons.prems(3) by blast
      have "at_line_start e True (rem @ concat (outs @ outs'))"
        using c(2) False at_line_start_append [of e True "rem @ concat outs" "concat outs'"] by (simp add: found_def)
      then show ?thesis using copied_trans [OF c(1) i] False by fastforce
    qed
  qed
qed simp

section \<open>Returning\<close>

text \<open>
  What one call finds, without what waits in the buffer; a call that finds nothing ends the
  copying of output. The script of a call is answered when it does not end in interruptions.
\<close>

definition call_data :: "bool \<Rightarrow> read_call \<Rightarrow> bytes option" where
  "call_data block c =
     (if fl_get c < 0 \<or> set_blocking block (fl_get c) \<noteq> fl_get c \<and> \<not> fl_set_ok c then Some []
      else read_loop (read_answers c))"

definition answered :: "read_call \<Rightarrow> bool" where
  "answered c \<longleftrightarrow> read_loop (read_answers c) \<noteq> None"

definition quiet_calls :: "read_call list \<Rightarrow> nat" where
  "quiet_calls cs = length (filter (\<lambda>c. call_data False c = Some []) cs)"

lemma call_data_answered:
  "answered c \<Longrightarrow> \<exists>d. call_data block c = Some d \<and> length d \<le> length (bytes_of (read_loop (read_answers c)))"
  by (cases "fl_get c < 0 \<or> set_blocking block (fl_get c) \<noteq> fl_get c \<and> \<not> fl_set_ok c")
    (auto simp: call_data_def answered_def)

lemma readAll_nonblocking:
  assumes "reads p = c # cs"
  shows "readAll False p = map_option (\<lambda>d. (inputBuffer p @ d, p\<lparr>inputBuffer := [], reads := cs\<rparr>)) (call_data False c)"
  using assms by (simp add: readAll_def call_data_def Let_def)

lemma copy_output_returns:
  assumes "list_all answered (reads p)" and "(if inputBuffer p = [] then 0 else 1) < quiet_calls (reads p)"
  shows "\<exists>r p'. copy_output remainder p = Some (r, p') \<and> inputBuffer p' = [] \<and> list_all answered (reads p') \<and>
    quiet_calls (reads p) \<le> quiet_calls (reads p') + (if inputBuffer p = [] then 1 else 2)"
  using assms
proof (induction "reads p" arbitrary: p remainder)
  case Nil
  then show ?case by (simp add: quiet_calls_def)
next
  case (Cons c cs)
  have rp: "reads p = c # cs" using Cons.hyps(2) by simp
  have ans: "answered c" "list_all answered cs" using Cons.prems(1) by (simp_all add: rp)
  then obtain d where d: "call_data False c = Some d" using call_data_answered by blast
  define q where "q = (if m_terminal p then p\<lparr>inputBuffer := [], reads := cs, shown := shown p @ [inputBuffer p @ d]\<rparr>
    else p\<lparr>inputBuffer := [], reads := cs\<rparr>)"
  have q: "cs = reads q" "inputBuffer q = []" "list_all answered (reads q)" "m_exitString q = m_exitString p"
    using ans by (simp_all add: q_def)
  have count: "quiet_calls (reads p) = (if d = [] then 1 else 0) + quiet_calls cs"
    using d by (simp add: quiet_calls_def rp)
  show ?case
  proof (cases "inputBuffer p @ d = []")
    case True
    then have "copy_output remainder p = Some (remainder, p\<lparr>inputBuffer := [], reads := cs\<rparr>)"
      using d readAll_nonblocking [OF rp] by (simp add: copy_output.simps [of remainder p])
    then show ?thesis using True count q(1,3) by simp
  next
    case False
    have more: "0 < quiet_calls (reads q)" using count Cons.prems(2) q(1) False by (auto split: if_splits)
    let ?ks = "scan_exit (m_exitString p) (remainder @ inputBuffer p @ d) 0"
    define q' where "q' = (if m_exitString p = [] then q else q\<lparr>signals := signals q @ replicate (fst ?ks) SIGTERM\<rparr>)"
    define r' where "r' = (if m_exitString p = [] then remainder else snd ?ks)"
    have "readAll False p = Some (inputBuffer p @ d, p\<lparr>inputBuffer := [], reads := cs\<rparr>)"
      using d readAll_nonblocking [OF rp] by simp
    then have step: "copy_output remainder p = copy_output r' q'"
      using False by (subst copy_output.simps) (simp add: q_def q'_def r'_def Let_def split_beta del: append_is_Nil_conv)
    have q': "cs = reads q'" "list_all answered (reads q')" "inputBuffer q' = []" using q by (simp_all add: q'_def)
    from Cons.hyps(1) [OF q'(1,2), of r'] more q'(3) obtain r p' where
      "copy_output r' q' = Some (r, p')" "inputBuffer p' = []" "list_all answered (reads p')"
      "quiet_calls (reads q') \<le> quiet_calls (reads p') + 1"
      unfolding q'(1) [symmetric] q(1) [symmetric] by auto
    then show ?thesis using step count q'(1) False by auto
  qed
qed

text \<open>A turn of the outer loop that ends it.\<close>

fun decisive :: "select_answer \<times> wait_answer \<Rightarrow> bool" where
  "decisive (sel, w) \<longleftrightarrow> sel = Sel_error \<or> checkPidExited w \<noteq> P_NotExited"

text \<open>Enough calls are left for \<open>k\<close> turns, each of which takes one that finds nothing.\<close>

definition stays_quiet :: "nat \<Rightarrow> pty \<Rightarrow> bool" where
  "stays_quiet k p \<longleftrightarrow> list_all answered (reads p) \<and> k + (if inputBuffer p = [] then 0 else 1) < quiet_calls (reads p)"

lemma stays_quiet_mono: "stays_quiet k p \<Longrightarrow> j \<le> k \<Longrightarrow> stays_quiet j p"
  by (simp add: stays_quiet_def)

lemma stays_quiet_frame [simp]:
  "stays_quiet k (p\<lparr>signals := a\<rparr>) = stays_quiet k p" "stays_quiet k (p\<lparr>m_exitString := e\<rparr>) = stays_quiet k p"
  "stays_quiet k (kill_child sig p) = stays_quiet k p"
  by (simp_all add: stays_quiet_def kill_child_def)

lemma wait_loop_returns:
  assumes "list_ex decisive rounds" and "stays_quiet (length rounds + k) p"
  shows "\<exists>ret p'. wait_loop rounds remainder p = Some (ret, p') \<and> stays_quiet k p'"
  using assms
proof (induction rounds arbitrary: p remainder)
  case (Cons a rounds)
  obtain sel w where a: "a = (sel, w)" by (cases a)
  show ?case
  proof (cases "sel = Sel_error \<or> sel \<noteq> Sel_ready")
    case True
    have "stays_quiet (length rounds + k) p" "stays_quiet k p"
      by (rule stays_quiet_mono [OF Cons.prems(2)], simp)+
    then show ?thesis using Cons.IH [of p remainder] Cons.prems(1) a True by (auto simp: Let_def)
  next
    case False
    obtain r p' where c: "copy_output remainder p = Some (r, p')" "inputBuffer p' = []" "list_all answered (reads p')"
      "quiet_calls (reads p) \<le> quiet_calls (reads p') + (if inputBuffer p = [] then 1 else 2)"
      using copy_output_returns [of p remainder] Cons.prems(2) by (fastforce simp: stays_quiet_def split: if_splits)
    then have left: "stays_quiet (length rounds + k) p'" using Cons.prems(2) by (simp add: stays_quiet_def split: if_splits)
    then have "stays_quiet k p'" by (rule stays_quiet_mono) simp
    then show ?thesis using Cons.IH [OF _ left, of r] Cons.prems(1) False a c(1) by (auto simp: Let_def)
  qed
qed simp

text \<open>
  A conversation reads lines until it is over or nothing comes any more. Each line takes one call
  of the script and at least one of the bytes that are still to come, so that with more calls
  than bytes the other side has fallen silent before the script ends; \<open>k\<close> calls are left for what
  follows.
\<close>

definition pending :: "pty \<Rightarrow> nat" where
  "pending p = length (inputBuffer p) + sum_list (map (\<lambda>c. length (bytes_of (read_loop (read_answers c)))) (reads p))"

definition falls_silent :: "nat \<Rightarrow> pty \<Rightarrow> bool" where
  "falls_silent k p \<longleftrightarrow> list_all answered (reads p) \<and> pending p + k < length (reads p)"

lemma falls_silent_mono: "falls_silent k p \<Longrightarrow> j \<le> k \<Longrightarrow> falls_silent j p"
  by (simp add: falls_silent_def)

lemma falls_silent_frame:
  "inputBuffer q = inputBuffer p \<Longrightarrow> reads q = reads p \<Longrightarrow> falls_silent k q = falls_silent k p"
  by (simp add: falls_silent_def pending_def)

lemma line_lengths:
  assumes "s \<noteq> []" and "i = indexOf_char s c"
  shows "length (if i = - 1 then [] else remove_front s (nat (i + 1))) < length s"
    and "length (if i = - 1 then [] else remove_front s (nat (i + 1))) + length (if i = - 1 then s else left s i) \<le> length s"
  using assms indexOf_char_split(1,2) [of s c i] by (auto simp: remove_front_def left_def)

lemma readLine_returns:
  assumes "falls_silent k p"
  obtains q p' where "readLine block p = Some (q, p')" "length (reads p) = Suc (length (reads p'))"
    "q \<noteq> None \<longrightarrow> falls_silent k p' \<and> pending p' < pending p \<and> pending p' + length (bytes_of q) \<le> pending p"
    "0 < k \<longrightarrow> falls_silent (k - 1) p'" "more_output p' = more_output p" "slave_polls p' = slave_polls p"
proof -
  obtain c cs where rp: "reads p = c # cs" using assms by (cases "reads p") (auto simp: falls_silent_def)
  let ?block = "if inputBuffer p \<noteq> [] then False else block"
  obtain d where d: "call_data ?block c = Some d" "length d \<le> length (bytes_of (read_loop (read_answers c)))"
    using assms rp call_data_answered [of c ?block] by (auto simp: falls_silent_def)
  let ?buf = "inputBuffer p @ d" and ?n = "sum_list (map (\<lambda>c. length (bytes_of (read_loop (read_answers c)))) cs)"
  have all: "readAll block p = Some (?buf, p\<lparr>inputBuffer := [], reads := cs\<rparr>)"
    using d(1) rp by (auto simp: readAll_def call_data_def Let_def split: if_splits)
  have bytes: "length ?buf + ?n \<le> pending p" using d(2) by (simp add: pending_def rp)
  have ans: "list_all answered cs" "pending p + k \<le> length cs" using assms rp by (simp_all add: falls_silent_def)
  show thesis
  proof (cases "?buf = []")
    case True
    let ?p = "p\<lparr>inputBuffer := [], reads := cs\<rparr>"
    have "0 < k \<longrightarrow> falls_silent (k - 1) ?p" using bytes ans by (auto simp: falls_silent_def pending_def)
    then show thesis using that [of None ?p] True all rp by (simp add: readLine_def)
  next
    case False
    define i where "i = indexOf_char ?buf NL"
    define b where "b = (if i = - 1 then [] else remove_front ?buf (nat (i + 1)))"
    define l where "l = (if i = - 1 then ?buf else left ?buf i)"
    let ?p = "p\<lparr>inputBuffer := b, reads := cs\<rparr>"
    have line: "readLine block p = Some (Some l, ?p)"
      using all False by (cases "NL \<in> set ?buf") (simp_all add: readLine_def b_def l_def i_def Let_def del: append_is_Nil_conv)
    have "length b + length l \<le> length ?buf" "length b < length ?buf"
      unfolding b_def l_def by (rule line_lengths [OF False i_def])+
    then have less: "pending ?p < pending p" "pending ?p + length l \<le> pending p" using bytes by (simp_all add: pending_def)
    then have "falls_silent k ?p" using ans by (simp add: falls_silent_def)
    then show thesis using that [OF line] less rp falls_silent_mono [of k ?p "k - 1"] by simp
  qed
qed

text \<open>With enough calls left the loop that waits for the child returns as well.\<close>

lemma quiet_calls_enough:
  "list_all answered cs \<Longrightarrow> length cs \<le> quiet_calls cs + sum_list (map (\<lambda>c. length (bytes_of (read_loop (read_answers c)))) cs)"
proof (induction cs)
  case (Cons c cs)
  let ?n = "length (bytes_of (read_loop (read_answers c)))"
  have "1 \<le> (if call_data False c = Some [] then 1 else 0) + ?n"
    using Cons.prems call_data_answered [of c False] by (cases ?n) auto
  moreover have "quiet_calls (c # cs) = (if call_data False c = Some [] then 1 else 0) + quiet_calls cs"
    by (simp add: quiet_calls_def)
  ultimately show ?case using Cons.IH Cons.prems by simp
qed (simp add: quiet_calls_def)

lemma silent_quiet: "falls_silent k p \<Longrightarrow> stays_quiet k p"
  using quiet_calls_enough [of "reads p"]
  by (cases "inputBuffer p") (auto simp: falls_silent_def stays_quiet_def pending_def)

lemma waitForChild_returns:
  assumes "stays_quiet (length rounds + k) p" and "list_ex decisive rounds"
  shows "\<exists>ret p'. waitForChild rounds p = Some (ret, p') \<and> stays_quiet k p'"
  unfolding waitForChild_def by (rule wait_loop_returns [OF assms(2,1)])

end
