(* ===== verification/Stub.thy ===== *)
theory Stub
  imports Pty Codec
begin

text \<open>
  The two ends of the conversation through which a command is handed to the process that runs
  it: \<^verbatim>\<open>StubProcess\<close> of \<^verbatim>\<open>src/src/stubprocess.cpp\<close>, which answers, and the program
  \<^verbatim>\<open>src/src/kdesu_stub.c\<close>, which asks. \<open>stub_process\<close> has the members of the class;
  \<open>stub_env\<close> is what it takes from its surroundings. The program is modelled here up to the point
  where it has its parameters and environment, with the niceness it computes; the rest is in
  \<open>StubMain\<close>.

  The lemmas show that the quoting of commands and variables is undone by the program, and what
  the program ends up with after the conversation.
\<close>

section \<open>StubProcess\<close>

definition SchedNormal :: int where "SchedNormal = 0"
definition SchedRealtime :: int where "SchedRealtime = 1"

record stub_process =
  m_XOnly :: bool
  m_priority :: int
  m_scheduler :: int
  m_command :: bytes
  m_user :: bytes

definition new_stub :: stub_process where
  "new_stub = \<lparr>m_XOnly = True, m_priority = 50, m_scheduler = SchedNormal, m_command = [], m_user = ''root''\<rparr>"

definition setCommand :: "bytes \<Rightarrow> stub_process \<Rightarrow> stub_process" where
  "setCommand command s = s\<lparr>m_command := command\<rparr>"

definition setUser :: "bytes \<Rightarrow> stub_process \<Rightarrow> stub_process" where
  "setUser user s = s\<lparr>m_user := user\<rparr>"

definition setXOnly :: "bool \<Rightarrow> stub_process \<Rightarrow> stub_process" where
  "setXOnly xonly s = s\<lparr>m_XOnly := xonly\<rparr>"

definition setPriority :: "int \<Rightarrow> stub_process \<Rightarrow> stub_process" where
  "setPriority prio s =
     (if prio > 100 then s\<lparr>m_priority := 100\<rparr>
      else if prio < 0 then s\<lparr>m_priority := 0\<rparr>
      else s\<lparr>m_priority := prio\<rparr>)"

definition setScheduler :: "int \<Rightarrow> stub_process \<Rightarrow> stub_process" where
  "setScheduler sched s = s\<lparr>m_scheduler := sched\<rparr>"

lemmas process_setup = setCommand_def setUser_def setXOnly_def setPriority_def setScheduler_def

text \<open>The body of the loop in \<^verbatim>\<open>writeString\<close>.\<close>

definition quote_byte :: "char \<Rightarrow> bytes" where
  "quote_byte c =
     (if code c < 32 then [BSLASH, byte_plus c 64]
      else if c = BSLASH then [BSLASH, CHR ''/'']
      else [c])"

fun quote_loop :: "bytes \<Rightarrow> bytes \<Rightarrow> bytes" where
  "quote_loop out [] = out"
| "quote_loop out (c # cs) = quote_loop (out @ quote_byte c) cs"

definition writeString :: "bytes \<Rightarrow> pty \<Rightarrow> pty" where
  "writeString str p = writeLine (quote_loop [] str) True p"

record stub_env =
  e_display :: bytes
  e_displayAuth :: bytes
  e_path :: bytes
  e_getpid :: int

definition default_path :: bytes where
  "default_path = ''/sbin:/bin:/usr/sbin:/usr/bin''"

definition stub_path :: "bytes \<Rightarrow> bytes \<Rightarrow> bytes" where
  "stub_path user path =
     (let path = (if path \<noteq> [] \<and> path ! 0 = CHR '':'' then mid path 1 else path)
      in if user = ''root'' then
           if path \<noteq> [] then default_path @ '':'' @ path else default_path
         else path)"

text \<open>The last startup id among the environment variables; the constant has a NUL behind it.\<close>

fun startup_id :: "bytes \<Rightarrow> bytes list \<Rightarrow> bytes" where
  "startup_id tmp [] = tmp"
| "startup_id tmp (var # vars) =
     startup_id (if startsWith var ''DESKTOP_STARTUP_ID='' then mid var (20 - 1) else tmp) vars"

text \<open>
  The answer to one request: the terminal after it, or the value to return. \<^verbatim>\<open>display()\<close> and
  \<^verbatim>\<open>displayAuth()\<close> are virtual; their results are in the environment.
\<close>

definition answer_request :: "stub_env \<Rightarrow> stub_process \<Rightarrow> bytes \<Rightarrow> pty \<Rightarrow> int + pty" where
  "answer_request E s line p =
     (if line = ''display'' then Inr (writeLine (e_display E) True p)
      else if line = ''display_auth'' then Inr (writeLine (e_displayAuth E) True p)
      else if line = ''command'' then Inr (writeString (m_command s) p)
      else if line = ''path'' then Inr (writeLine (stub_path (m_user s) (e_path E)) True p)
      else if line = ''user'' then Inr (writeLine (m_user s) True p)
      else if line = ''priority'' then Inr (writeLine (setNum (m_priority s)) True p)
      else if line = ''scheduler'' then
        Inr (if m_scheduler s = SchedRealtime then writeLine ''realtime'' True p else writeLine ''normal'' True p)
      else if line = ''xwindows_only'' then
        Inr (if m_XOnly s then writeLine ''no'' True p else writeLine ''yes'' True p)
      else if line = ''app_startup_id'' then
        (let tmp = startup_id [] (extra_env p)
         in Inr (writeLine (if tmp = [] then ''0'' else tmp) True p))
      else if line = ''app_start_pid'' then Inr (writeLine (setNum (e_getpid E)) True p)
      else if line = ''environment'' then Inr (writeLine [] True (fold writeString (extra_env p) p))
      else if line = ''end'' then Inl 0
      else Inl 1)"

text \<open>Answering does not touch what the child will say.\<close>

lemma write_frame [simp]:
  "reads (write_fd d p) = reads p" "reads (writeLine l b p) = reads p" "reads (writeString s p) = reads p"
  "reads (fold writeString vs p) = reads p"
proof -
  show w: "reads (write_fd d p) = reads p" for d p by (simp add: write_fd_def)
  show l: "reads (writeLine l b p) = reads p" for l b p by (simp add: writeLine_def w Let_def)
  show s: "reads (writeString s p) = reads p" for s p by (simp add: writeString_def l)
  show "reads (fold writeString vs p) = reads p" by (induction vs arbitrary: p) (simp_all add: s)
qed

lemma answer_request_reads: "answer_request E s line p = Inr q \<Longrightarrow> reads q = reads p"
  by (auto simp: answer_request_def Let_def split: if_splits)

text \<open>The two loops of \<^verbatim>\<open>converseStub\<close>.\<close>

function stub_header :: "int \<Rightarrow> pty \<Rightarrow> (int option \<times> pty) option" where
  "stub_header check p =
     (case readLine True p of
        None \<Rightarrow> None
      | Some (None, p) \<Rightarrow> Some (Some (-1), p)
      | Some (Some line, p) \<Rightarrow>
          if line = ''kdesu_stub'' then
            let p = enableLocalEcho False p
            in Some (None, if check \<noteq> 0 then writeLine ''stop'' True p else writeLine ''ok'' True p)
          else stub_header check p)"
  by pat_completeness auto
termination
  by (relation "measure (\<lambda>(c, p). length (reads p))") (auto dest: readLine_reads)

declare stub_header.simps [simp del]

function stub_requests :: "stub_env \<Rightarrow> stub_process \<Rightarrow> pty \<Rightarrow> (int \<times> pty) option" where
  "stub_requests E s p =
     (case readLine True p of
        None \<Rightarrow> None
      | Some (None, p) \<Rightarrow> Some (-1, p)
      | Some (Some line, p) \<Rightarrow>
          (case answer_request E s line p of
             Inl ret \<Rightarrow> Some (ret, p)
           | Inr p \<Rightarrow> stub_requests E s p))"
  by pat_completeness auto
termination
  by (relation "measure (\<lambda>(E, s, p). length (reads p))") (auto dest: readLine_reads simp: answer_request_reads)

declare stub_requests.simps [simp del]

definition converseStub :: "stub_env \<Rightarrow> stub_process \<Rightarrow> int \<Rightarrow> pty \<Rightarrow> (int \<times> pty) option" where
  "converseStub E s check p =
     (case stub_header check p of
        None \<Rightarrow> None
      | Some (Some ret, p) \<Rightarrow> Some (ret, p)
      | Some (None, p) \<Rightarrow> stub_requests E s p)"

text \<open>It returns when the other side falls silent.\<close>

lemma write_buffer [simp]:
  "inputBuffer (write_fd d p) = inputBuffer p" "inputBuffer (writeLine l b p) = inputBuffer p"
  "inputBuffer (writeString s p) = inputBuffer p" "inputBuffer (fold writeString vs p) = inputBuffer p"
proof -
  show w: "inputBuffer (write_fd d p) = inputBuffer p" for d p by (simp add: write_fd_def)
  show l: "inputBuffer (writeLine l b p) = inputBuffer p" for l b p by (simp add: writeLine_def w Let_def)
  show s: "inputBuffer (writeString s p) = inputBuffer p" for s p by (simp add: writeString_def l)
  show "inputBuffer (fold writeString vs p) = inputBuffer p" by (induction vs arbitrary: p) (simp_all add: s)
qed

lemma answer_request_frame: "answer_request E s line p = Inr q \<Longrightarrow> falls_silent k q = falls_silent k p \<and> pending q = pending p"
  by (auto simp: answer_request_def Let_def falls_silent_def pending_def split: if_splits)

lemma stub_header_returns:
  "falls_silent (Suc k) p \<Longrightarrow> \<exists>r p'. stub_header check p = Some (r, p') \<and> falls_silent (if r = None then Suc k else k) p'"
proof (induction "pending p" arbitrary: p rule: less_induct)
  case less
  obtain q p1 where r: "readLine True p = Some (q, p1)" "q \<noteq> None \<longrightarrow> falls_silent (Suc k) p1 \<and> pending p1 < pending p"
    "falls_silent k p1"
    using readLine_returns [OF less.prems, of True] by (metis diff_Suc_1 zero_less_Suc)
  note step = stub_header.simps [of check p, unfolded r(1) option.case prod.case]
  show ?case
  proof (cases "q = None \<or> q = Some ''kdesu_stub''")
    case True
    then show ?thesis
      using r unfolding step by (auto simp: Let_def enableLocalEcho_def falls_silent_def pending_def)
  next
    case False
    then obtain line where q: "q = Some line" "line \<noteq> ''kdesu_stub''" by auto
    then have "pending p1 < pending p" "falls_silent (Suc k) p1" using r(2) by auto
    from less.hyps [OF this] show ?thesis using q(2) unfolding step q(1) by simp
  qed
qed

lemma stub_requests_returns:
  "falls_silent (Suc k) p \<Longrightarrow> \<exists>ret p'. stub_requests E s p = Some (ret, p') \<and> falls_silent k p'"
proof (induction "pending p" arbitrary: p rule: less_induct)
  case less
  obtain q p1 where r: "readLine True p = Some (q, p1)" "q \<noteq> None \<longrightarrow> falls_silent (Suc k) p1 \<and> pending p1 < pending p"
    "falls_silent k p1"
    using readLine_returns [OF less.prems, of True] by (metis diff_Suc_1 zero_less_Suc)
  note step = stub_requests.simps [of E s p, unfolded r(1) option.case prod.case]
  show ?case
  proof (cases q)
    case (Some line)
    show ?thesis
    proof (cases "answer_request E s line p1")
      case (Inr p2)
      with answer_request_frame [OF Inr] r Some show ?thesis using less.hyps [of p2] unfolding step by auto
    qed (use r Some in \<open>simp add: step\<close>)
  qed (use r in \<open>simp add: step\<close>)
qed

lemma converseStub_returns:
  assumes "falls_silent (Suc k) p"
  shows "\<exists>ret p'. converseStub E s check p = Some (ret, p') \<and> falls_silent k p'"
proof -
  obtain r p1 where r: "stub_header check p = Some (r, p1)" "falls_silent (if r = None then Suc k else k) p1"
    using stub_header_returns [OF assms] by blast
  then show ?thesis using stub_requests_returns [of k p1] by (cases r) (auto simp: converseStub_def)
qed

section \<open>The program kdesu_stub\<close>

definition STUB_BUFSIZE :: nat where
  "STUB_BUFSIZE = 8192"

text \<open>
  \<^verbatim>\<open>fgets(buf, n, stdin)\<close> on the bytes to come: up to \<open>n - 1\<close> bytes, up to and with the
  first newline; \<^const>\<open>None\<close> at the end of the file.
\<close>

definition fgets :: "nat \<Rightarrow> bytes \<Rightarrow> (bytes \<times> bytes) option" where
  "fgets n s =
     (let line = takeWhile (\<lambda>c. c \<noteq> NL) s @ take 1 (dropWhile (\<lambda>c. c \<noteq> NL) s);
          got = take (n - 1) line
      in if got = [] then None else Some (got, drop (length got) s))"

definition xstrdup :: "bytes \<Rightarrow> bytes" where
  "xstrdup src = (let s = c_str src in if s \<noteq> [] \<and> last s = NL then butlast s else s)"

fun dequote_loop :: "bytes \<Rightarrow> bytes" where
  "dequote_loop [] = []"
| "dequote_loop [c] = [c]"
| "dequote_loop (c # d # cs) =
     (if c = BSLASH then (if d = CHR ''/'' then BSLASH else byte_minus d 64) # dequote_loop cs
      else c # dequote_loop (d # cs))"

text \<open>
  Taking a list apart at its commas; nothing in the program calls it. The result is the fields, of
  which an empty last one is left out.
\<close>

function xstrsep :: "bytes \<Rightarrow> bytes list" where
  "xstrsep str =
     (let i = indexOf_char str (CHR '','') in
      if i \<noteq> -1 then left str i # xstrsep (remove_front str (nat (i + 1)))
      else if str \<noteq> [] then [str] else [])"
  by pat_completeness auto
termination
proof (relation "measure length", simp)
  fix str :: bytes and i
  assume "i = indexOf_char str (CHR '','')" "i \<noteq> -1"
  from indexOf_char_split [OF this(1) [symmetric] this(2)]
  show "(remove_front str (nat (i + 1)), str) \<in> measure length" by (simp add: remove_front_def)
qed

declare xstrsep.simps [simp del]

lemma xstrsep_fields:
  "CHR '','' \<notin> set f \<Longrightarrow> xstrsep (f @ CHR '','' # s) = f # xstrsep s"
  "CHR '','' \<notin> set f \<Longrightarrow> f \<noteq> [] \<Longrightarrow> xstrsep f = [f]" "xstrsep [] = []"
  by (simp_all add: xstrsep.simps [of "f @ CHR '','' # s"] xstrsep.simps [of f] xstrsep.simps [of "[]"]
      indexOf_char_first left_def remove_front_def nat_add_distrib)

definition dequote :: "bytes \<Rightarrow> bytes" where
  "dequote buf = dequote_loop (c_str buf)"

definition stub_params :: "bytes list" where
  "stub_params = [''kdesu_stub'', ''display'', ''display_auth'', ''command'', ''path'', ''xwindows_only'',
     ''user'', ''priority'', ''scheduler'', ''app_startup_id'']"

text \<open>Asking for the parameters: the values, the rest of the input, or the exit status.\<close>

fun ask_params :: "nat \<Rightarrow> bytes list \<Rightarrow> bytes \<Rightarrow> int + (bytes list \<times> bytes)" where
  "ask_params i [] stdin = Inr ([], stdin)"
| "ask_params i (name # names) stdin =
     (case fgets STUB_BUFSIZE stdin of
        None \<Rightarrow> Inl 1
      | Some (buf, stdin) \<Rightarrow>
          let val = xstrdup buf in
          if i = 0 \<and> val = ''stop'' then Inl 0
          else case ask_params (i + 1) names stdin of
            Inl status \<Rightarrow> Inl status
          | Inr (vals, stdin) \<Rightarrow> Inr (val # vals, stdin))"

lemma fgets_less: "fgets n s = Some (l, r) \<Longrightarrow> length r < length s"
  by (cases s) (auto simp: fgets_def Let_def split: if_splits)

function ask_environment :: "bytes list \<Rightarrow> bytes \<Rightarrow> int + (bytes list \<times> bytes)" where
  "ask_environment env stdin =
     (case fgets STUB_BUFSIZE stdin of
        None \<Rightarrow> Inl 1
      | Some (buf, stdin) \<Rightarrow>
          let tmp = xstrdup (dequote buf) in
          if tmp = [] then Inr (env, stdin) else ask_environment (env @ [tmp]) stdin)"
  by pat_completeness auto
termination
  by (relation "measure (\<lambda>(e, s). length s)") (auto dest: fgets_less)

declare ask_environment.simps [simp del]

text \<open>All that the program reads: parameters, then environment.\<close>

definition stub_read :: "bytes \<Rightarrow> int + (bytes list \<times> bytes list \<times> bytes)" where
  "stub_read stdin =
     (case ask_params 0 stub_params stdin of
        Inl status \<Rightarrow> Inl status
      | Inr (vals, stdin) \<Rightarrow>
          (case ask_environment [] stdin of
             Inl status \<Rightarrow> Inl status
           | Inr (env, stdin) \<Rightarrow> Inr (vals, env, stdin)))"

text \<open>The command line for the shell, a C string.\<close>

definition stub_command :: "bytes list \<Rightarrow> bytes" where
  "stub_command vals = c_str (dequote (vals ! 3))"

text \<open>
  The niceness for a priority. The program computes \<^verbatim>\<open>(int)(prio * 40.0 / 100 + 0.5)\<close>; the
  quotient is never half-way between two integers, so this is the integer part of the exact
  value, and the conversion cuts off towards zero.
\<close>

definition trunc_div :: "int \<Rightarrow> int \<Rightarrow> int" where
  "trunc_div a b = sgn a * (\<bar>a\<bar> div b)"

lemma trunc_div_nonneg: "0 \<le> a \<Longrightarrow> trunc_div a b = a div b"
  by (cases "a = 0") (simp_all add: trunc_div_def)

definition stub_nice :: "int \<Rightarrow> int" where
  "stub_nice prio = 20 - trunc_div (prio * 40 + 50) 100"

text \<open>
  Whatever number a client asks for, the niceness is between -20 and 20; 50 is the ordinary
  niceness 0, and more priority never means more niceness.
\<close>

lemma priority_bounds:
  "- 20 \<le> stub_nice (m_priority (setPriority m s)) \<and> stub_nice (m_priority (setPriority m s)) \<le> 20 \<and>
    stub_nice (m_priority (setPriority 50 s)) = 0 \<and>
    stub_nice (m_priority (setPriority (max m n) s)) \<le> stub_nice (m_priority (setPriority m s))"
proof -
  let ?c = "\<lambda>n. m_priority (setPriority n s)"
  have range: "0 \<le> ?c n \<and> ?c n \<le> 100" for n by (simp add: setPriority_def)
  have mono: "?c m \<le> ?c (max m n)" by (simp add: setPriority_def max_def)
  have "(?c m * 40 + 50) div 100 \<le> (100 * 40 + 50) div 100" by (rule zdiv_mono1) (use range [of m] in auto)
  moreover have "0 \<le> (?c m * 40 + 50) div 100" using range [of m] by (simp add: pos_imp_zdiv_nonneg_iff)
  moreover have "(?c m * 40 + 50) div 100 \<le> (?c (max m n) * 40 + 50) div 100" by (rule zdiv_mono1) (use mono in auto)
  moreover have "?c 50 = 50" by (simp add: setPriority_def)
  moreover have "0 \<le> ?c n * 40 + 50" for n using range [of n] by simp
  ultimately show ?thesis by (simp add: stub_nice_def trunc_div_nonneg)
qed

section \<open>Quoting\<close>

lemma quote_loop_concat: "quote_loop out s = out @ concat (map quote_byte s)"
  by (induction out s rule: quote_loop.induct) simp_all

lemma quote_byte_range: "d \<in> set (quote_byte c) \<Longrightarrow> 32 \<le> code d"
  by (auto simp: quote_byte_def code_byte_plus split: if_splits)

lemma quoted_clean:
  "NL \<notin> set (quote_loop [] s)" "NUL \<notin> set (quote_loop [] s)"
  using quote_byte_range [of NL] quote_byte_range [of NUL] by (auto simp: quote_loop_concat)

lemma dequote_loop_plain: "c \<noteq> BSLASH \<Longrightarrow> dequote_loop (c # s) = c # dequote_loop s"
  by (cases s) simp_all

lemma dequote_byte: "dequote_loop (quote_byte c @ s) = c # dequote_loop s"
proof -
  have "byte_plus c 64 \<noteq> CHR ''/''" if "code c < 32"
    using that code_byte_plus [of c 64] by (auto simp: eq_code_iff)
  then show ?thesis by (auto simp: quote_byte_def dequote_loop_plain)
qed

lemma dequote_quote: "dequote_loop (quote_loop [] v @ r) = v @ dequote_loop r"
  by (induction v) (simp_all add: quote_loop_concat dequote_byte)

lemma fgets_line:
  assumes "NL \<notin> set x" "length x + 1 < n"
  shows "fgets n (x @ NL # r) = Some (x @ [NL], r)"
proof -
  have *: "\<forall>c \<in> set x. c \<noteq> NL" using assms(1) by auto
  have "takeWhile (\<lambda>c. c \<noteq> NL) (x @ NL # r) = x" "dropWhile (\<lambda>c. c \<noteq> NL) (x @ NL # r) = NL # r"
    using takeWhile_append_stop [OF *] dropWhile_append_stop [OF *] by simp_all
  then show ?thesis using assms(2) by (simp add: fgets_def)
qed

lemma xstrdup_line: "NUL \<notin> set x \<Longrightarrow> xstrdup (x @ [NL]) = x"
  by (simp add: xstrdup_def c_str_id Let_def)

text \<open>What one line of the environment carries.\<close>

definition env_line :: "bytes \<Rightarrow> bytes" where
  "env_line v = quote_loop [] v @ [NL]"

definition read_env_line :: "bytes \<Rightarrow> (bytes \<times> bytes) option" where
  "read_env_line s = map_option (\<lambda>(buf, r). (xstrdup (dequote buf), r)) (fgets STUB_BUFSIZE s)"

definition env_sendable :: "bytes \<Rightarrow> bool" where
  "env_sendable v \<longleftrightarrow> NUL \<notin> set v \<and> length (quote_loop [] v) + 1 < STUB_BUFSIZE"

lemma dequote_line: "dequote (quote_loop [] v @ [NL]) = v @ [NL]"
  using quoted_clean [of v] by (simp add: dequote_def c_str_id dequote_quote)

interpretation stub_line: stream_codec env_line read_env_line env_sendable
proof
  fix v r
  assume v: "env_sendable v"
  have "fgets STUB_BUFSIZE (env_line v @ r) = Some (quote_loop [] v @ [NL], r)"
    using v fgets_line [OF quoted_clean(1), of v STUB_BUFSIZE r] by (simp add: env_line_def env_sendable_def)
  then show "read_env_line (env_line v @ r) = Some (v, r)"
    using v by (simp add: read_env_line_def dequote_line xstrdup_line env_sendable_def)
qed

lemma ask_environment_lines:
  "\<forall>v \<in> set vs. env_sendable v \<and> v \<noteq> [] \<Longrightarrow>
     ask_environment env (concat (map env_line vs) @ NL # r) = Inr (env @ vs, r)"
proof (induction vs arbitrary: env)
  case Nil
  have "fgets STUB_BUFSIZE (NL # r) = Some ([NL], r)" using fgets_line [of "[]" STUB_BUFSIZE r] by (simp add: STUB_BUFSIZE_def)
  moreover have "xstrdup (dequote [NL]) = []" by code_simp
  ultimately show ?case by (simp add: ask_environment.simps [of env "NL # r"])
next
  case (Cons v vs)
  let ?s = "concat (map env_line vs) @ NL # r"
  from stub_line.dec_enc [of v ?s] Cons.prems obtain buf where
    "fgets STUB_BUFSIZE (env_line v @ ?s) = Some (buf, ?s)" "xstrdup (dequote buf) = v"
    by (auto simp: read_env_line_def)
  then show ?case using Cons by (simp add: ask_environment.simps [of env "env_line v @ x" for x])
qed

section \<open>The conversation\<close>

text \<open>A child that says one line at a time.\<close>

definition says :: "bytes \<Rightarrow> read_call" where
  "says l = \<lparr>fl_get = 0, fl_set_ok = True, read_answers = [Received (l @ [NL])]\<rparr>"

lemma readLine_says:
  assumes "inputBuffer p = []" "reads p = says l # cs" "NL \<notin> set l"
  shows "readLine True p = Some (Some l, p\<lparr>reads := cs\<rparr>)"
proof -
  have "readAll True p = Some (l @ [NL], p\<lparr>reads := cs\<rparr>)"
    using assms(1,2) by (simp add: readAll_def says_def set_blocking_def)
  moreover have "indexOf_char (l @ [NL]) NL = int (length l)" using assms(3) indexOf_char_first [of NL l "[]"] by simp
  ultimately show ?thesis
    using assms(1) by (simp add: readLine_def left_def remove_front_def nat_add_distrib)
qed

definition sent_bytes :: "pty \<Rightarrow> bytes" where
  "sent_bytes p = concat (written p)"

lemma sent_bytes_write [simp]:
  "sent_bytes (writeLine l True p) = sent_bytes p @ l @ [NL]"
  "sent_bytes (writeString s p) = sent_bytes p @ env_line s"
  by (simp_all add: sent_bytes_def writeString_def writeLine_def write_fd_def env_line_def Let_def)

lemma sent_bytes_strings: "sent_bytes (fold writeString vs p) = sent_bytes p @ concat (map env_line vs)"
  by (induction vs arbitrary: p) simp_all

lemma write_keeps [simp]:
  "inputBuffer (writeLine l b p) = inputBuffer p" "extra_env (writeLine l b p) = extra_env p"
  "inputBuffer (writeString s p) = inputBuffer p" "extra_env (writeString s p) = extra_env p"
  "inputBuffer (fold writeString vs p) = inputBuffer p" "extra_env (fold writeString vs p) = extra_env p"
proof -
  show w: "inputBuffer (writeLine l b p) = inputBuffer p" "extra_env (writeLine l b p) = extra_env p" for l b p
    by (simp_all add: writeLine_def write_fd_def Let_def)
  show s: "inputBuffer (writeString s p) = inputBuffer p" "extra_env (writeString s p) = extra_env p" for s p
    by (simp_all add: writeString_def w)
  show "inputBuffer (fold writeString vs p) = inputBuffer p" "extra_env (fold writeString vs p) = extra_env p"
    by (induction vs arbitrary: p) (simp_all add: s)
qed

lemma stub_requests_end:
  assumes "inputBuffer p = []" "reads p = [says ''end'']"
  shows "stub_requests E s p = Some (0, p\<lparr>reads := []\<rparr>)"
  using readLine_says [OF assms] by (simp add: stub_requests.simps [of E s p] answer_request_def)

text \<open>One request, answered by the bytes \<open>d\<close>.\<close>

definition answers_with :: "stub_env \<Rightarrow> stub_process \<Rightarrow> bytes list \<Rightarrow> bytes \<Rightarrow> bytes \<Rightarrow> bool" where
  "answers_with E s env l d \<longleftrightarrow> NL \<notin> set l \<and> (\<forall>p. extra_env p = env \<longrightarrow>
     (\<exists>q. answer_request E s l p = Inr q \<and> inputBuffer q = inputBuffer p \<and> extra_env q = extra_env p \<and>
       sent_bytes q = sent_bytes p @ d))"

lemma stub_requests_answers:
  assumes "list_all2 (answers_with E s env) ls ds" "inputBuffer p = []" "extra_env p = env"
    "reads p = map says (ls @ [''end''])"
  shows "\<exists>p'. stub_requests E s p = Some (0, p') \<and> sent_bytes p' = sent_bytes p @ concat ds"
  using assms
proof (induction ls ds arbitrary: p rule: list_all2_induct)
  case Nil
  then show ?case by (simp add: stub_requests_end sent_bytes_def)
next
  case (Cons l ls d ds)
  let ?p = "p\<lparr>reads := map says (ls @ [''end''])\<rparr>"
  have r: "readLine True p = Some (Some l, ?p)"
    using readLine_says [of p l] Cons.prems Cons.hyps(1) by (simp add: answers_with_def)
  have "extra_env ?p = env" "inputBuffer ?p = []" "sent_bytes ?p = sent_bytes p"
    using Cons.prems by (simp_all add: sent_bytes_def)
  with Cons.hyps(1) obtain q where q: "answer_request E s l ?p = Inr q" "inputBuffer q = []"
    "extra_env q = env" "sent_bytes q = sent_bytes p @ d"
    unfolding answers_with_def by metis
  have "reads q = map says (ls @ [''end''])" using answer_request_reads [OF q(1)] by simp
  from Cons.IH [OF q(2,3) this] q r show ?case by (auto simp: stub_requests.simps [of E s p])
qed

text \<open>The parameters the program is to get, in the order it asks for them.\<close>

definition stub_values :: "stub_env \<Rightarrow> stub_process \<Rightarrow> bytes list \<Rightarrow> bytes list" where
  "stub_values E s env =
     [e_display E, e_displayAuth E, quote_loop [] (m_command s), stub_path (m_user s) (e_path E),
      if m_XOnly s then ''no'' else ''yes'', m_user s, setNum (m_priority s),
      if m_scheduler s = SchedRealtime then ''realtime'' else ''normal'',
      if startup_id [] env = [] then ''0'' else startup_id [] env]"

definition line_safe :: "bytes \<Rightarrow> bool" where
  "line_safe v \<longleftrightarrow> NL \<notin> set v \<and> NUL \<notin> set v \<and> length v + 1 < STUB_BUFSIZE"

lemma answers_values:
  "list_all2 (answers_with E s env) (tl stub_params @ [''environment''])
     (map (\<lambda>v. v @ [NL]) (stub_values E s env) @ [concat (map env_line env) @ [NL]])"
  by (simp add: stub_params_def stub_values_def answers_with_def answer_request_def sent_bytes_strings env_line_def)

lemma ask_params_lines:
  "\<forall>v \<in> set vals. line_safe v \<Longrightarrow> length names = length vals \<Longrightarrow> 0 < i \<Longrightarrow>
     ask_params i names (concat (map (\<lambda>v. v @ [NL]) vals) @ r) = Inr (vals, r)"
proof (induction vals arbitrary: i names)
  case (Cons v vals)
  then obtain n names' where names: "names = n # names'" by (cases names) auto
  have "fgets STUB_BUFSIZE (v @ NL # concat (map (\<lambda>v. v @ [NL]) vals) @ r) =
      Some (v @ [NL], concat (map (\<lambda>v. v @ [NL]) vals) @ r)" "xstrdup (v @ [NL]) = v"
    using Cons.prems(1) fgets_line xstrdup_line by (simp_all add: line_safe_def)
  then show ?case using Cons names by simp
qed simp

lemma header_says:
  assumes "inputBuffer p = []" "reads p = says ''kdesu_stub'' # cs"
  shows "\<exists>q. stub_header check p = Some (None, q) \<and> inputBuffer q = [] \<and> extra_env q = extra_env p \<and> reads q = cs \<and>
    sent_bytes q = sent_bytes p @ (if check \<noteq> 0 then ''stop'' else ''ok'') @ [NL]"
  using readLine_says [OF assms]
  by (simp add: stub_header.simps [of check p] enableLocalEcho_def assms(1)) (simp add: sent_bytes_def)

text \<open>Behind the header: the answers, which together with the first line are all that the program reads.\<close>

lemma stub_answers_read:
  assumes q: "inputBuffer q = []" "reads q = map says (tl stub_params @ [''environment'', ''end''])"
    and vals: "\<forall>v \<in> set (stub_values E s (extra_env q)). line_safe v"
    and env: "\<forall>v \<in> set (extra_env q). env_sendable v \<and> v \<noteq> []"
  shows "\<exists>p' d. stub_requests E s q = Some (0, p') \<and> sent_bytes p' = sent_bytes q @ d \<and>
    stub_read ((''ok'' @ [NL]) @ d) = Inr (''ok'' # stub_values E s (extra_env q), extra_env q, [])"
proof -
  have params: "stub_params = ''kdesu_stub'' # tl stub_params" by (simp add: stub_params_def)
  let ?d = "concat (map (\<lambda>v. v @ [NL]) (stub_values E s (extra_env q)) @ [concat (map env_line (extra_env q)) @ [NL]])"
  let ?rest = "concat (map (\<lambda>v. v @ [NL]) (stub_values E s (extra_env q))) @ concat (map env_line (extra_env q)) @ [NL]"
  have "reads q = map says ((tl stub_params @ [''environment'']) @ [''end''])" using q(2) by simp
  from stub_requests_answers [OF answers_values q(1) refl this] obtain p' where
    p': "stub_requests E s q = Some (0, p')" "sent_bytes p' = sent_bytes q @ ?d" by auto
  have "fgets STUB_BUFSIZE (''ok'' @ NL # ?rest) = Some (''ok'' @ [NL], ?rest)"
    by (rule fgets_line) (simp_all add: STUB_BUFSIZE_def)
  moreover have "xstrdup (''ok'' @ [NL]) = ''ok''" by (rule xstrdup_line) simp
  moreover have "ask_params 1 (tl stub_params) ?rest =
      Inr (stub_values E s (extra_env q), concat (map env_line (extra_env q)) @ [NL])"
    by (rule ask_params_lines [OF vals]) (simp_all add: stub_params_def stub_values_def)
  ultimately have "ask_params 0 stub_params ((''ok'' @ [NL]) @ ?d) =
      Inr (''ok'' # stub_values E s (extra_env q), concat (map env_line (extra_env q)) @ [NL])"
    by (subst params) simp
  moreover have "ask_environment [] (concat (map env_line (extra_env q)) @ [NL]) = Inr (extra_env q, [])"
    using ask_environment_lines [OF env, of "[]" "[]"] by simp
  ultimately have "stub_read ((''ok'' @ [NL]) @ ?d) = Inr (''ok'' # stub_values E s (extra_env q), extra_env q, [])"
    by (simp add: stub_read_def)
  with p' show ?thesis by blast
qed

lemma stub_conversation:
  assumes p: "inputBuffer p = []" "written p = []" "reads p = map says (stub_params @ [''environment'', ''end''])"
    and vals: "\<forall>v \<in> set (stub_values E s (extra_env p)). line_safe v"
    and env: "\<forall>v \<in> set (extra_env p). env_sendable v \<and> v \<noteq> []"
  shows "\<exists>p'. converseStub E s 0 p = Some (0, p') \<and>
    stub_read (sent_bytes p') = Inr (''ok'' # stub_values E s (extra_env p), extra_env p, [])"
proof -
  have "reads p = says ''kdesu_stub'' # map says (tl stub_params @ [''environment'', ''end''])"
    using p(3) by (simp add: stub_params_def)
  from header_says [OF p(1) this, of 0] obtain q where q: "stub_header 0 p = Some (None, q)" "inputBuffer q = []"
    "extra_env q = extra_env p" "reads q = map says (tl stub_params @ [''environment'', ''end''])"
    "sent_bytes q = ''ok'' @ [NL]"
    using p(2) by (auto simp: sent_bytes_def)
  obtain p' d where "stub_requests E s q = Some (0, p')" "sent_bytes p' = sent_bytes q @ d"
    "stub_read ((''ok'' @ [NL]) @ d) = Inr (''ok'' # stub_values E s (extra_env p), extra_env p, [])"
    using stub_answers_read [OF q(2,4), of E s] vals env unfolding q(3) by blast
  then have "stub_requests E s q = Some (0, p')" "stub_read (sent_bytes p') = Inr (''ok'' # stub_values E s (extra_env p), extra_env p, [])"
    using q(5) by simp_all
  then show ?thesis using q(1) by (auto simp: converseStub_def)
qed

text \<open>The command line survives the quoting of the client side of the pipe.\<close>

lemma dequote_values:
  assumes "NUL \<notin> set (m_command s)"
  shows "stub_command (''ok'' # stub_values E s env) = m_command s"
proof -
  have "dequote (quote_loop [] (m_command s)) = m_command s"
    using quoted_clean(2) [of "m_command s"] assms dequote_quote [of "m_command s" "[]"] by (simp add: dequote_def c_str_id)
  then show ?thesis using assms by (simp add: stub_command_def stub_values_def c_str_id)
qed

end
