(* ===== verification/Handler.thy ===== *)
theory Handler
  imports Lexer Repo Secure Stub
begin

text \<open>
  A client connection of the daemon, \<^verbatim>\<open>src/src/kdesud/handler.cpp\<close> and
  \<^verbatim>\<open>handler.h\<close>. \<open>connection\<close> is the class \<^verbatim>\<open>ConnectionHandler\<close>; a \<open>session\<close> is
  what a command works on: the connection, the global repository, and the messages sent on
  the connection so far. Each case of \<^verbatim>\<open>doCommand\<close> is a definition of its own, which
  reads its tokens in the order of the code and leaves by \<open>parse_error\<close> where the code
  jumps there. What the system decides is in \<open>cmd_env\<close>: our user number, the clock at the two
  possible calls of \<^verbatim>\<open>time()\<close>, and the result of \<^verbatim>\<open>fork()\<close>.

  \<^const>\<open>None\<close> stands for undefined behaviour of the C++ program: a read outside the lexer's
  input, or of the timeout before it was set. The lemmas show that this does not happen.
\<close>

section \<open>State\<close>

record connection =
  m_Fd :: int
  m_Timeout :: "int option"
  m_Priority :: int
  m_Scheduler :: int
  m_Buf :: bytes
  m_Pass :: qbytes
  m_Host :: bytes
  m_exitCode :: int
  m_hasExitCode :: bool
  m_needExitCode :: bool
  m_pid :: int
  m_peer :: socket_security

definition new_connection :: "int \<Rightarrow> socket_security \<Rightarrow> connection" where
  "new_connection fd peer =
     \<lparr>m_Fd = fd, m_Timeout = None, m_Priority = 50, m_Scheduler = SchedNormal, m_Buf = [],
      m_Pass = None, m_Host = [], m_exitCode = 0, m_hasExitCode = False, m_needExitCode = False,
      m_pid = 0, m_peer = peer\<rparr>"

text \<open>The destructor erases what has held passwords and closes the descriptor it returns.\<close>

definition destroy_connection :: "connection \<Rightarrow> connection \<times> int" where
  "destroy_connection c =
     (let c = c\<lparr>m_Buf := qfill (CHR ''x'') (m_Buf c)\<rparr>;
          c = c\<lparr>m_Pass := map_option (qfill (CHR ''x'')) (m_Pass c)\<rparr>
      in (c, m_Fd c))"

lemma destroy_connection_erases:
  "set (m_Buf (fst (destroy_connection c))) \<union> set (bytes_of (m_Pass (fst (destroy_connection c)))) \<subseteq> {CHR ''x''}"
  "snd (destroy_connection c) = m_Fd c"
  by (cases "m_Pass c"; simp add: destroy_connection_def Let_def)+

record session =
  conn :: connection
  store :: repository
  sent :: "bytes list"

record cmd_env =
  env_getuid :: "32 word"
  env_time1 :: "64 word"
  env_time2 :: "64 word"
  env_fork :: int

text \<open>
  What the forked child is to run: the process object it has set up, its additional environment,
  and the password it hands to \<^verbatim>\<open>exec\<close>.
\<close>

datatype child_job =
  SuJob (job_proc: stub_process) (job_env: "bytes list") (job_pass: qbytes)
| SshJob (job_proc: stub_process) (job_host: bytes) (job_pass: qbytes)

text \<open>How a command ends: a return value, the exit of the daemon, or, in the child, its job.\<close>

datatype outcome = Return int | Exited int | Child child_job

datatype results = Res_OK | Res_NO

abbreviation set_conn :: "(connection \<Rightarrow> connection) \<Rightarrow> session \<Rightarrow> session" where
  "set_conn f S \<equiv> S\<lparr>conn := f (conn S)\<rparr>"

section \<open>Messages and keys\<close>

definition send_msg :: "bytes \<Rightarrow> session \<Rightarrow> session" where
  "send_msg buf S = S\<lparr>sent := sent S @ [buf]\<rparr>"

definition makeKey :: "int \<Rightarrow> bytes \<Rightarrow> bytes \<Rightarrow> bytes \<Rightarrow> bytes" where
  "makeKey ns s1 s2 s3 = setNum ns @ ''*'' @ s1 @ ''*'' @ s2 @ ''*'' @ s3"

definition sendExitCode :: "session \<Rightarrow> session" where
  "sendExitCode S =
     (if \<not> m_needExitCode (conn S) then S
      else send_msg (''OK '' @ setNum (m_exitCode (conn S)) @ [NL]) S)"

definition reply :: "results \<Rightarrow> bytes \<Rightarrow> bytes" where
  "reply ok s = (case ok of Res_OK \<Rightarrow> ''OK'' | Res_NO \<Rightarrow> ''NO'') @ (if s \<noteq> [] then '' '' @ s else []) @ [NL]"

definition respond :: "results \<Rightarrow> bytes \<Rightarrow> session \<Rightarrow> session" where
  "respond ok s S = send_msg (reply ok s) S"

definition parse_error :: "session \<Rightarrow> (outcome \<times> session) option" where
  "parse_error S = Some (Return (-1), S)"

definition finished :: "session \<Rightarrow> (outcome \<times> session) option" where
  "finished S = Some (Return 0, S)"

section \<open>The commands\<close>

definition cmd_pass :: "lexer \<Rightarrow> session \<Rightarrow> (outcome \<times> session) option" where
  "cmd_pass l S = do {
     (tok, l) \<leftarrow> lex l;
     if tok \<noteq> Tok_str then parse_error S else do {
     let S = set_conn (\<lambda>c. c\<lparr>m_Pass := Some (lval l)\<rparr>) S;
     (tok, l) \<leftarrow> lex l;
     if tok \<noteq> Tok_num then parse_error S else do {
     let S = set_conn (\<lambda>c. c\<lparr>m_Timeout := Some (toInt (lval l))\<rparr>) S;
     (tok, l) \<leftarrow> lex l;
     if tok \<noteq> Tok_newline then parse_error S else do {
     let S = (if isNull (m_Pass (conn S)) then set_conn (\<lambda>c. c\<lparr>m_Pass := Some []\<rparr>) S else S);
     finished (respond Res_OK [] S)
   }}}}"

definition cmd_host :: "lexer \<Rightarrow> session \<Rightarrow> (outcome \<times> session) option" where
  "cmd_host l S = do {
     (tok, l) \<leftarrow> lex l;
     if tok \<noteq> Tok_str then parse_error S else do {
     let S = set_conn (\<lambda>c. c\<lparr>m_Host := lval l\<rparr>) S;
     (tok, l) \<leftarrow> lex l;
     if tok \<noteq> Tok_newline then parse_error S else
     finished (respond Res_OK [] S)
   }}"

definition cmd_prio :: "lexer \<Rightarrow> session \<Rightarrow> (outcome \<times> session) option" where
  "cmd_prio l S = do {
     (tok, l) \<leftarrow> lex l;
     if tok \<noteq> Tok_num then parse_error S else do {
     let S = set_conn (\<lambda>c. c\<lparr>m_Priority := toInt (lval l)\<rparr>) S;
     (tok, l) \<leftarrow> lex l;
     if tok \<noteq> Tok_newline then parse_error S else
     finished (respond Res_OK [] S)
   }}"

definition cmd_sched :: "lexer \<Rightarrow> session \<Rightarrow> (outcome \<times> session) option" where
  "cmd_sched l S = do {
     (tok, l) \<leftarrow> lex l;
     if tok \<noteq> Tok_num then parse_error S else do {
     let S = set_conn (\<lambda>c. c\<lparr>m_Scheduler := toInt (lval l)\<rparr>) S;
     (tok, l) \<leftarrow> lex l;
     if tok \<noteq> Tok_newline then parse_error S else
     finished (respond Res_OK [] S)
   }}"

text \<open>What one environment argument adds to \<^verbatim>\<open>env_check\<close>.\<close>

definition env_check_step :: "qbytes \<Rightarrow> bytes \<Rightarrow> qbytes" where
  "env_check_step env_check env_str =
     (if \<not> startsWith env_str ''DESKTOP_STARTUP_ID='' then Some (bytes_of env_check @ ''*'' @ env_str)
      else env_check)"

text \<open>
  The loop of EXEC over the environment arguments, entered with a token read:
  \<^const>\<open>None\<close> inside is a parse error.
\<close>

function exec_env :: "token \<Rightarrow> lexer \<Rightarrow> bytes list \<Rightarrow> qbytes \<Rightarrow> (bytes list \<times> qbytes) option option" where
  "exec_env tok l env env_check =
     (if tok = Tok_newline then Some (Some (env, env_check))
      else if tok \<noteq> Tok_str then Some None
      else
        let env_str = lval l;
            env' = env @ [env_str];
            env_check' = env_check_step env_check env_str
        in (case lex l of None \<Rightarrow> None | Some (tok', l') \<Rightarrow> exec_env tok' l' env' env_check'))"
  by pat_completeness auto
termination
  by (relation "measure (\<lambda>(tok, l, env, chk). unread l)") (auto dest: lex_unread)

declare exec_env.simps [simp del]

definition exec_options :: "lexer \<Rightarrow> (bytes \<times> bytes list \<times> qbytes) option option" where
  "exec_options l = do {
     (tok, l) \<leftarrow> lex l;
     if tok \<noteq> Tok_newline then
       if tok \<noteq> Tok_str then Some None else do {
         let options = lval l;
         (tok, l) \<leftarrow> lex l;
         r \<leftarrow> exec_env tok l [] None;
         Some (map_option (\<lambda>(env, env_check). (options, env, env_check)) r)
       }
     else Some (Some ([], [], None))
   }"

text \<open>The user whose password counts: root's as soon as scheduler or priority are raised.\<close>

definition auth_user :: "connection \<Rightarrow> bytes \<Rightarrow> bytes" where
  "auth_user c user = (if m_Scheduler c \<noteq> SchedNormal \<or> m_Priority c > 50 then ''root'' else user)"

text \<open>The password stored for a command, if it was stored with the same environment.\<close>

definition stored_pass :: "repository \<Rightarrow> bytes \<Rightarrow> bytes \<Rightarrow> bytes \<Rightarrow> qbytes \<Rightarrow> qbytes" where
  "stored_pass r host auth command env_check =
     (if qeq (find (makeKey 2 host auth command) r) env_check
      then find (makeKey 0 host auth command) r else None)"

text \<open>Storing the connection's password, with the environment it is good for.\<close>

definition store_pass :: "cmd_env \<Rightarrow> bytes \<Rightarrow> bytes \<Rightarrow> bytes \<Rightarrow> qbytes \<Rightarrow> qbytes \<Rightarrow> int \<Rightarrow> repository \<Rightarrow> repository" where
  "store_pass E host auth command env_check pass timeout r =
     (let d = \<lparr>entry_value = env_check, entry_group = [], entry_timeout = word_of_int timeout\<rparr>;
          r1 = fst (add (makeKey 2 host auth command) d (env_time1 E) r);
          d1 = \<lparr>entry_value = pass, entry_group = [], entry_timeout = word_of_int timeout\<rparr>
      in fst (add (makeKey 0 host auth command) d1 (env_time2 E) r1))"

text \<open>
  The forked child: which process object it makes, and the calls by which it sets it up. The
  constructors are called without arguments, which leaves user and command empty.
\<close>

definition blank_process :: stub_process where
  "blank_process = new_stub\<lparr>m_user := [], m_command := []\<rparr>"

definition exec_job :: "connection \<Rightarrow> bytes \<Rightarrow> bytes \<Rightarrow> bytes \<Rightarrow> bytes list \<Rightarrow> qbytes \<Rightarrow> child_job" where
  "exec_job c command user options env pass =
     (if m_Host c = [] then
        let proc = setCommand command blank_process;
            proc = setUser user proc;
            proc = (if contains options ''x'' then setXOnly True proc else proc);
            proc = setPriority (m_Priority c) proc;
            proc = setScheduler (m_Scheduler c) proc
        in SuJob proc env pass
      else
        let proc = setCommand command blank_process;
            proc = setUser user proc
        in SshJob proc (m_Host c) pass)"

definition exec_fork :: "cmd_env \<Rightarrow> child_job \<Rightarrow> session \<Rightarrow> (outcome \<times> session) option" where
  "exec_fork E job S =
     (if env_fork E < 0 then finished (respond Res_NO [] S)
      else if env_fork E > 0 then
        finished (respond Res_OK [] (set_conn (\<lambda>c. c\<lparr>m_pid := env_fork E\<rparr>) S))
      else Some (Child job, S))"

definition cmd_exec :: "cmd_env \<Rightarrow> lexer \<Rightarrow> session \<Rightarrow> (outcome \<times> session) option" where
  "cmd_exec E l S = do {
     (tok, l) \<leftarrow> lex l;
     if tok \<noteq> Tok_str then parse_error S else do {
     let command = lval l;
     (tok, l) \<leftarrow> lex l;
     if tok \<noteq> Tok_str then parse_error S else do {
     let user = lval l;
     r \<leftarrow> exec_options l;
     (case r of
        None \<Rightarrow> parse_error S
      | Some (options, env, env_check) \<Rightarrow>
          (let c = conn S;
               auth = auth_user c user;
               pass = stored_pass (store S) (m_Host c) auth command env_check
           in if isNull pass then
                if isNull (m_Pass c) then finished (respond Res_NO [] S)
                else do {
                  timeout \<leftarrow> m_Timeout c;
                  let S = S\<lparr>store := store_pass E (m_Host c) auth command env_check (m_Pass c) timeout (store S)\<rparr>;
                  exec_fork E (exec_job c command user options env (m_Pass c)) S
                }
              else exec_fork E (exec_job c command user options env pass) S))
   }}}"

definition cmd_delCmd :: "lexer \<Rightarrow> session \<Rightarrow> (outcome \<times> session) option" where
  "cmd_delCmd l S = do {
     (tok, l) \<leftarrow> lex l;
     if tok \<noteq> Tok_str then parse_error S else do {
     let command = lval l;
     (tok, l) \<leftarrow> lex l;
     if tok \<noteq> Tok_str then parse_error S else do {
     let user = lval l;
     (tok, l) \<leftarrow> lex l;
     if tok \<noteq> Tok_newline then parse_error S else do {
     let (ret, r) = remove (makeKey 0 (m_Host (conn S)) user command) (store S);
     finished (respond (if ret < 0 then Res_NO else Res_OK) [] (S\<lparr>store := r\<rparr>))
   }}}}"

definition cmd_delVar :: "lexer \<Rightarrow> session \<Rightarrow> (outcome \<times> session) option" where
  "cmd_delVar l S = do {
     (tok, l) \<leftarrow> lex l;
     if tok \<noteq> Tok_str then parse_error S else do {
     let name = lval l;
     (tok, l) \<leftarrow> lex l;
     if tok \<noteq> Tok_newline then parse_error S else do {
     let (ret, r) = remove (makeKey 1 name [] []) (store S);
     finished (respond (if ret < 0 then Res_NO else Res_OK) [] (S\<lparr>store := r\<rparr>))
   }}}"

definition cmd_delGroup :: "lexer \<Rightarrow> session \<Rightarrow> (outcome \<times> session) option" where
  "cmd_delGroup l S = do {
     (tok, l) \<leftarrow> lex l;
     if tok \<noteq> Tok_str then parse_error S else do {
     let (ret, r) = removeGroup (lval l) (store S);
     finished (respond (if ret < 0 then Res_NO else Res_OK) [] (S\<lparr>store := r\<rparr>))
   }}"

definition cmd_delSpecialKey :: "lexer \<Rightarrow> session \<Rightarrow> (outcome \<times> session) option" where
  "cmd_delSpecialKey l S = do {
     (tok, l) \<leftarrow> lex l;
     if tok \<noteq> Tok_str then parse_error S else do {
     let (ret, r) = removeSpecialKey (lval l) (store S);
     finished (respond (if ret < 0 then Res_NO else Res_OK) [] (S\<lparr>store := r\<rparr>))
   }}"

definition cmd_set :: "cmd_env \<Rightarrow> lexer \<Rightarrow> session \<Rightarrow> (outcome \<times> session) option" where
  "cmd_set E l S = do {
     (tok, l) \<leftarrow> lex l;
     if tok \<noteq> Tok_str then parse_error S else do {
     let name = lval l;
     (tok, l) \<leftarrow> lex l;
     if tok \<noteq> Tok_str then parse_error S else do {
     let value = lval l;
     (tok, l) \<leftarrow> lex l;
     if tok \<noteq> Tok_str then parse_error S else do {
     let g = lval l;
     (tok, l) \<leftarrow> lex l;
     if tok \<noteq> Tok_num then parse_error S else do {
     let data = \<lparr>entry_value = Some value, entry_group = g, entry_timeout = word_of_int (toInt (lval l))\<rparr>;
     (tok, l) \<leftarrow> lex l;
     if tok \<noteq> Tok_newline then parse_error S else
     finished (respond Res_OK [] (S\<lparr>store := fst (add (makeKey 1 name [] []) data (env_time1 E) (store S))\<rparr>))
   }}}}}"

definition cmd_get :: "lexer \<Rightarrow> session \<Rightarrow> (outcome \<times> session) option" where
  "cmd_get l S = do {
     (tok, l) \<leftarrow> lex l;
     if tok \<noteq> Tok_str then parse_error S else do {
     let name = lval l;
     (tok, l) \<leftarrow> lex l;
     if tok \<noteq> Tok_newline then parse_error S else do {
     let value = find (makeKey 1 name [] []) (store S);
     finished (if \<not> isEmpty value then respond Res_OK (bytes_of value) S else respond Res_NO [] S)
   }}}"

definition cmd_getKeys :: "lexer \<Rightarrow> session \<Rightarrow> (outcome \<times> session) option" where
  "cmd_getKeys l S = do {
     (tok, l) \<leftarrow> lex l;
     if tok \<noteq> Tok_str then parse_error S else do {
     let name = lval l;
     (tok, l) \<leftarrow> lex l;
     if tok \<noteq> Tok_newline then parse_error S else do {
     let value = findKeys name ''-'' (store S);
     finished (if value \<noteq> [] then respond Res_OK value S else respond Res_NO [] S)
   }}}"

definition cmd_chkGroup :: "lexer \<Rightarrow> session \<Rightarrow> (outcome \<times> session) option" where
  "cmd_chkGroup l S = do {
     (tok, l) \<leftarrow> lex l;
     if tok \<noteq> Tok_str then parse_error S else do {
     let name = lval l;
     (tok, l) \<leftarrow> lex l;
     if tok \<noteq> Tok_newline then parse_error S else
     finished (respond (if hasGroup name (store S) < 0 then Res_NO else Res_OK) [] S)
   }}"

definition cmd_ping :: "lexer \<Rightarrow> session \<Rightarrow> (outcome \<times> session) option" where
  "cmd_ping l S = do {
     (tok, l) \<leftarrow> lex l;
     if tok \<noteq> Tok_newline then parse_error S else finished (respond Res_OK [] S)
   }"

definition cmd_exit :: "lexer \<Rightarrow> session \<Rightarrow> (outcome \<times> session) option" where
  "cmd_exit l S = do {
     (tok, l) \<leftarrow> lex l;
     if tok \<noteq> Tok_newline then parse_error S else do {
     let S = set_conn (\<lambda>c. c\<lparr>m_needExitCode := True\<rparr>) S;
     finished (if m_hasExitCode (conn S) then sendExitCode S else S)
   }}"

text \<open>STOP: the reply, then \<^verbatim>\<open>kdesud_cleanup()\<close> and \<^verbatim>\<open>exit(0)\<close>.\<close>

definition cmd_stop :: "lexer \<Rightarrow> session \<Rightarrow> (outcome \<times> session) option" where
  "cmd_stop l S = do {
     (tok, l) \<leftarrow> lex l;
     if tok \<noteq> Tok_newline then parse_error S else Some (Exited 0, respond Res_OK [] S)
   }"

definition dispatch :: "cmd_env \<Rightarrow> token \<Rightarrow> lexer \<Rightarrow> session \<Rightarrow> (outcome \<times> session) option" where
  "dispatch E tok l S = (case tok of
     Tok_pass \<Rightarrow> cmd_pass l S
   | Tok_host \<Rightarrow> cmd_host l S
   | Tok_prio \<Rightarrow> cmd_prio l S
   | Tok_sched \<Rightarrow> cmd_sched l S
   | Tok_exec \<Rightarrow> cmd_exec E l S
   | Tok_delCmd \<Rightarrow> cmd_delCmd l S
   | Tok_delVar \<Rightarrow> cmd_delVar l S
   | Tok_delGroup \<Rightarrow> cmd_delGroup l S
   | Tok_delSpecialKey \<Rightarrow> cmd_delSpecialKey l S
   | Tok_set \<Rightarrow> cmd_set E l S
   | Tok_get \<Rightarrow> cmd_get l S
   | Tok_getKeys \<Rightarrow> cmd_getKeys l S
   | Tok_chkGroup \<Rightarrow> cmd_chkGroup l S
   | Tok_ping \<Rightarrow> cmd_ping l S
   | Tok_exit \<Rightarrow> cmd_exit l S
   | Tok_stop \<Rightarrow> cmd_stop l S
   | _ \<Rightarrow> parse_error (respond Res_NO [] S))"

definition doCommand :: "cmd_env \<Rightarrow> bytes \<Rightarrow> session \<Rightarrow> (outcome \<times> session) option" where
  "doCommand E buf S =
     (if peerUid (m_peer (conn S)) \<noteq> env_getuid E then Some (Return (-1), S)
      else do {
        (tok, l) \<leftarrow> lex (new_lexer buf);
        dispatch E tok l S
      })"

end
