(* ===== verification/Environ.thy ===== *)
theory Environ
  imports Qt_Bytes
begin

text \<open>
  The environment variables of a process and the calls on them that the program uses:
  \<^verbatim>\<open>getenv\<close>, \<^verbatim>\<open>putenv\<close>, \<^verbatim>\<open>unsetenv\<close>, \<^verbatim>\<open>xsetenv\<close> of \<^verbatim>\<open>src/src/kdesu_stub.c\<close>
  and Qt's \<^verbatim>\<open>qgetenv\<close> and \<^verbatim>\<open>qputenv\<close>. An environment is a map from names to values. \<^verbatim>\<open>putenv\<close> with
  a string that has no equals sign removes the variable of that name, as the C library of GNU
  documents it.
\<close>

type_synonym environ = "bytes \<rightharpoonup> bytes"

abbreviation EQUALS :: char where
  "EQUALS \<equiv> CHR ''=''"

definition unsetenv :: "bytes \<Rightarrow> environ \<Rightarrow> environ" where
  "unsetenv name env = env(name := None)"

definition putenv :: "bytes \<Rightarrow> environ \<Rightarrow> environ" where
  "putenv var env =
     (let s = c_str var in
      if EQUALS \<in> set s
      then env(takeWhile (\<lambda>c. c \<noteq> EQUALS) s \<mapsto> tl (dropWhile (\<lambda>c. c \<noteq> EQUALS) s))
      else env(s := None))"

text \<open>\<^verbatim>\<open>xsetenv\<close> of the stub: name, equals sign and value in one string, for \<^verbatim>\<open>putenv\<close>.\<close>

definition xsetenv :: "bytes \<Rightarrow> bytes \<Rightarrow> environ \<Rightarrow> environ" where
  "xsetenv name value env = putenv (c_str name @ [EQUALS] @ c_str value) env"

definition qgetenv :: "bytes \<Rightarrow> environ \<Rightarrow> bytes" where
  "qgetenv name env = (case env name of None \<Rightarrow> [] | Some v \<Rightarrow> v)"

definition qputenv :: "bytes \<Rightarrow> bytes \<Rightarrow> environ \<Rightarrow> environ" where
  "qputenv name value env = env(name \<mapsto> c_str value)"

lemmas environ_defs = unsetenv_def qgetenv_def qputenv_def

text \<open>A string as it can be handed to \<^verbatim>\<open>putenv\<close>: a name, an equals sign, a value.\<close>

definition is_setting :: "bytes \<Rightarrow> bool" where
  "is_setting v \<longleftrightarrow> EQUALS \<in> set v \<and> NUL \<notin> set v"

definition setting_name :: "bytes \<Rightarrow> bytes" where
  "setting_name v = takeWhile (\<lambda>c. c \<noteq> EQUALS) v"

lemma putenv_setting:
  "NUL \<notin> set n \<Longrightarrow> NUL \<notin> set v \<Longrightarrow> EQUALS \<notin> set n \<Longrightarrow> putenv (n @ EQUALS # v) env = env(n \<mapsto> v)"
proof -
  assume a: "NUL \<notin> set n" "NUL \<notin> set v" "EQUALS \<notin> set n"
  then have n: "\<forall>c \<in> set n. c \<noteq> EQUALS" by auto
  have "c_str (n @ EQUALS # v) = n @ EQUALS # v" using a by (simp add: c_str_id)
  then show ?thesis
    using takeWhile_append_stop [OF n] dropWhile_append_stop [OF n] by (simp add: putenv_def)
qed

lemma c_str_no_NUL [simp]: "NUL \<notin> set (c_str s)"
  by (auto simp: c_str_def dest: set_takeWhileD)

lemma xsetenv_eq: "NUL \<notin> set n \<Longrightarrow> EQUALS \<notin> set n \<Longrightarrow> xsetenv n v env = env(n \<mapsto> c_str v)"
  using putenv_setting [of n "c_str v" env] by (simp add: xsetenv_def c_str_id)

text \<open>Whatever the string, \<^verbatim>\<open>putenv\<close> changes no other variable than the one it names.\<close>

lemma putenv_other:
  assumes "n \<noteq> setting_name (c_str var)"
  shows "putenv var env n = env n"
proof (cases "EQUALS \<in> set (c_str var)")
  case True
  then show ?thesis using assms by (simp add: putenv_def setting_name_def Let_def)
next
  case False
  then have "setting_name (c_str var) = c_str var" by (auto simp: setting_name_def takeWhile_eq_all_conv)
  then show ?thesis using assms False by (simp add: putenv_def Let_def)
qed

lemma fold_putenv_other:
  "n \<notin> set (map (\<lambda>v. setting_name (c_str v)) vars) \<Longrightarrow> fold putenv vars env n = env n"
  by (induction vars arbitrary: env) (auto simp: putenv_other)

text \<open>The last setting of a name is the one that counts.\<close>

lemma fold_putenv_last:
  assumes "NUL \<notin> set n" "NUL \<notin> set v" "EQUALS \<notin> set n"
    and "n \<notin> set (map (\<lambda>w. setting_name (c_str w)) later)"
  shows "fold putenv (earlier @ (n @ EQUALS # v) # later) env n = Some v"
  using fold_putenv_other [OF assms(4)] putenv_setting [OF assms(1-3)] by simp

end
