(* ===== verification/Client.thy ===== *)
theory Client
  imports Lexer Environ Codec
begin

text \<open>
  The client library, \<^verbatim>\<open>src/src/client.cpp\<close>: quoting of strings, the message each
  operation of \<^verbatim>\<open>KDESu::Client\<close> sends, the exchange with the daemon
  (\<^verbatim>\<open>command\<close>), the path of the socket, the connection with its check of the peer
  (\<^verbatim>\<open>connect\<close>) and the start of the daemon (\<^verbatim>\<open>startServer\<close>), each public operation on an exchange with
  the daemon, and the defaults of \<^verbatim>\<open>defaults.h\<close>. System calls are arguments: what \<^verbatim>\<open>send\<close> and \<^verbatim>\<open>recv\<close> returned, and the
  answers of \<^verbatim>\<open>access\<close>, \<^verbatim>\<open>socket\<close> and the peer credentials.

  The lemmas show that the daemon's lexer reads a quoted string back, for every string
  without the byte 127, how replies are taken apart, and which socket is looked for.
\<close>

section \<open>Quoting\<close>

text \<open>The body of the loop in \<^verbatim>\<open>escape()\<close>: what one byte appends.\<close>

definition escape_byte :: "char \<Rightarrow> bytes" where
  "escape_byte c =
     (if code c < 32 then [BSLASH, CHR ''^'', byte_plus c 64]
      else if c = BSLASH \<or> c = DQUOTE then [BSLASH, c]
      else [c])"

fun escape_loop :: "bytes \<Rightarrow> bytes \<Rightarrow> bytes" where
  "escape_loop copy [] = copy"
| "escape_loop copy (c # cs) = escape_loop (copy @ escape_byte c) cs"

definition escape :: "bytes \<Rightarrow> bytes" where
  "escape str = escape_loop [DQUOTE] str @ [DQUOTE]"

lemma escape_loop_concat: "escape_loop copy s = copy @ concat (map escape_byte s)"
  by (induction copy s rule: escape_loop.induct) simp_all

lemma escape_concat: "escape s = DQUOTE # concat (map escape_byte s) @ [DQUOTE]"
  by (simp add: escape_def escape_loop_concat)

lemma ref_quoted_escape_byte:
  assumes "c \<noteq> DEL"
  shows "ref_quoted out (escape_byte c @ r) = ref_quoted (out @ [c]) r"
proof -
  consider (low) "code c < 32" | (special) "\<not> code c < 32" "c = BSLASH \<or> c = DQUOTE"
    | (plain) "\<not> code c < 32" "c \<noteq> BSLASH" "c \<noteq> DQUOTE"
    by blast
  then show ?thesis
  proof cases
    case low
    then have "code (byte_plus c 64) = code c + 64" by (simp add: code_byte_plus)
    with low have "byte_plus c 64 \<noteq> DQUOTE" "\<not> iscntrl (byte_plus c 64)"
      by (auto simp: iscntrl_def eq_code_iff)
    then show ?thesis
      using low by (simp add: escape_byte_def ref_body_def ref_escape_def) (simp add: ctype)
  next
    case special
    then show ?thesis by (auto simp: escape_byte_def ref_body_def ref_escape_def)
  next
    case plain
    then have "\<not> iscntrl c" using assms by (auto simp: iscntrl_def eq_code_iff)
    then show ?thesis using plain by (simp add: escape_byte_def ref_body_def)
  qed
qed

lemma ref_quoted_escape:
  "DEL \<notin> set s \<Longrightarrow> ref_quoted out (concat (map escape_byte s) @ r) = ref_quoted (out @ s) r"
proof (induction s arbitrary: out)
  case (Cons c s)
  then show ?case using ref_quoted_escape_byte [of c out "concat (map escape_byte s) @ r"] by auto
qed simp

lemma ref_lex_escape [simp]:
  "DEL \<notin> set s \<Longrightarrow> ref_lex (escape s @ r) = (Tok_str, s, r)"
  by (simp add: ref_lex_def ref_token_def escape_concat ref_quoted_escape)

lemma ref_lex_blank_escape [simp]: "ref_lex (CHR '' '' # escape s @ r) = ref_lex (escape s @ r)"
  by (rule ref_lex_blank) (simp_all add: escape_concat)

lemma ref_lex_escape_DEL:
  assumes "DEL \<in> set s"
  shows "fst (ref_lex (escape s @ r)) = Tok_none"
proof -
  obtain p q where s: "s = p @ DEL # q" "DEL \<notin> set p" using split_list_first [OF assms] by blast
  have "ref_lex (escape s @ r) =
      ref_quoted [] (concat (map escape_byte p) @ DEL # concat (map escape_byte q) @ DQUOTE # r)"
    using s by (simp add: ref_lex_def ref_token_def escape_concat escape_byte_def)
  also have "\<dots> = ref_quoted p (DEL # concat (map escape_byte q) @ DQUOTE # r)"
    using ref_quoted_escape [OF s(2), of "[]"] by simp
  finally show ?thesis by simp
qed

text \<open>The lexer as a decoder of quoted strings.\<close>

definition read_string :: "bytes \<Rightarrow> (bytes \<times> bytes) option" where
  "read_string s = (case ref_lex s of (t, v, r) \<Rightarrow> if t = Tok_str then Some (v, r) else None)"

interpretation quoted: stream_codec escape read_string "\<lambda>s. DEL \<notin> set s"
  by unfold_locales (simp add: read_string_def)

section \<open>Messages\<close>

definition setPass_msg :: "bytes \<Rightarrow> int \<Rightarrow> bytes" where
  "setPass_msg pass timeout = ''PASS '' @ escape pass @ '' '' @ setNum timeout @ [NL]"

fun env_args :: "bytes list \<Rightarrow> bytes" where
  "env_args [] = []"
| "env_args (v # vs) = '' '' @ escape v @ env_args vs"

definition exec_msg :: "bytes \<Rightarrow> bytes \<Rightarrow> bytes \<Rightarrow> bytes list \<Rightarrow> bytes" where
  "exec_msg prog user options env =
     ''EXEC '' @ escape prog @ '' '' @ escape user @
     (if options \<noteq> [] \<or> env \<noteq> [] then '' '' @ escape options @ env_args env else []) @ [NL]"

definition setHost_msg :: "bytes \<Rightarrow> bytes" where
  "setHost_msg host = ''HOST '' @ escape host @ [NL]"

definition setPriority_msg :: "int \<Rightarrow> bytes" where
  "setPriority_msg prio = ''PRIO '' @ setNum prio @ [NL]"

definition setScheduler_msg :: "int \<Rightarrow> bytes" where
  "setScheduler_msg sched = ''SCHD '' @ setNum sched @ [NL]"

definition delCommand_msg :: "bytes \<Rightarrow> bytes \<Rightarrow> bytes" where
  "delCommand_msg key user = ''DEL '' @ escape key @ '' '' @ escape user @ [NL]"

definition setVar_msg :: "bytes \<Rightarrow> bytes \<Rightarrow> int \<Rightarrow> bytes \<Rightarrow> bytes" where
  "setVar_msg key value timeout grp =
     ''SET '' @ escape key @ '' '' @ escape value @ '' '' @ escape grp @ '' '' @ setNum timeout @ [NL]"

definition getVar_msg :: "bytes \<Rightarrow> bytes" where
  "getVar_msg key = ''GET '' @ escape key @ [NL]"

definition getKeys_msg :: "bytes \<Rightarrow> bytes" where
  "getKeys_msg grp = ''GETK '' @ escape grp @ [NL]"

definition findGroup_msg :: "bytes \<Rightarrow> bytes" where
  "findGroup_msg grp = ''CHKG '' @ escape grp @ [NL]"

definition delVar_msg :: "bytes \<Rightarrow> bytes" where
  "delVar_msg key = ''DELV '' @ escape key @ [NL]"

definition delGroup_msg :: "bytes \<Rightarrow> bytes" where
  "delGroup_msg grp = ''DELG '' @ escape grp @ [NL]"

definition delVars_msg :: "bytes \<Rightarrow> bytes" where
  "delVars_msg special_key = ''DELS '' @ escape special_key @ [NL]"

definition ping_msg :: bytes where
  "ping_msg = ''PING'' @ [NL]"

definition exitCode_msg :: bytes where
  "exitCode_msg = ''EXIT'' @ [NL]"

definition stopServer_msg :: bytes where
  "stopServer_msg = ''STOP'' @ [NL]"

section \<open>The connection\<close>

record client =
  daemon :: bytes
  sockfd :: int
  sock :: bytes

text \<open>The destructor: the descriptors it closes.\<close>

definition destroy_client :: "client \<Rightarrow> int list" where
  "destroy_client d = (if 0 \<le> sockfd d then [sockfd d] else [])"

definition new_client :: client where
  "new_client = \<lparr>daemon = [], sockfd = -1, sock = []\<rparr>"

text \<open>
  How the preprocessor finds the owner of the socket: from the kernel, or, where the platform
  has no credentials, from the file. \<open>connect_env\<close> is what the system answers.
\<close>

datatype owner_check = By_peercred | By_getpeereid | By_lstat

record sock_stat =
  st_uid :: "32 word"
  st_issock :: bool

record connect_env =
  env_accessible :: bool
  env_socket :: int
  env_connected :: bool
  env_cred_uid :: "32 word option"
  env_lstat :: "sock_stat option"
  env_me :: "32 word"

definition owner_ok :: "owner_check \<Rightarrow> connect_env \<Rightarrow> bool" where
  "owner_ok how e =
     (case how of
        By_lstat \<Rightarrow>
          (case env_lstat e of
             None \<Rightarrow> False
           | Some s \<Rightarrow> if st_uid s \<noteq> env_me e then False else if \<not> st_issock s then False else True)
      | By_getpeereid \<Rightarrow>
          (case env_cred_uid e of None \<Rightarrow> True | Some euid \<Rightarrow> \<not> euid \<noteq> env_me e)
      | By_peercred \<Rightarrow>
          (case env_cred_uid e of None \<Rightarrow> True | Some uid \<Rightarrow> \<not> uid \<noteq> env_me e))"

text \<open>The value returned, the new state, and the descriptors closed on the way.\<close>

definition connect :: "owner_check \<Rightarrow> connect_env \<Rightarrow> client \<Rightarrow> int \<times> client \<times> int list" where
  "connect how e d =
     (let closed = (if sockfd d \<ge> 0 then [sockfd d] else []) in
      if \<not> env_accessible e then (-1, d\<lparr>sockfd := -1\<rparr>, closed)
      else
        let d = d\<lparr>sockfd := env_socket e\<rparr> in
        if sockfd d < 0 then (-1, d, closed)
        else if \<not> env_connected e then (-1, d\<lparr>sockfd := -1\<rparr>, closed @ [sockfd d])
        else if \<not> owner_ok how e then (-1, d\<lparr>sockfd := -1\<rparr>, closed @ [sockfd d])
        else (0, d, closed))"

text \<open>
  The display that names the socket: on X11 that of the environment, or that of Wayland if there
  is none; otherwise a fixed word. Its screen number is removed, a match of the regular
  expression \<^verbatim>\<open>\\.[0-9]+$\<close>, in which the end may be in front of a last newline. File names and
  the environment are taken to be in the same encoding.
\<close>

definition strip_end :: "bytes \<Rightarrow> bytes" where
  "strip_end d =
     (let digits = takeWhile isdigit (rev d); rest = dropWhile isdigit (rev d)
      in if digits \<noteq> [] \<and> rest \<noteq> [] \<and> hd rest = CHR ''.'' then rev (tl rest) else d)"

definition strip_screen :: "bytes \<Rightarrow> bytes" where
  "strip_screen d = (if d \<noteq> [] \<and> last d = NL then strip_end (butlast d) @ [NL] else strip_end d)"

definition client_display :: "bool \<Rightarrow> environ \<Rightarrow> bytes" where
  "client_display x11 env =
     (if x11 then
        let display = qgetenv ''DISPLAY'' env in
        if display = [] then qgetenv ''WAYLAND_DISPLAY'' env else display
      else ''NODISPLAY'')"

text \<open>The constructor; \<open>dir\<close> is the runtime directory.\<close>

definition open_client :: "owner_check \<Rightarrow> connect_env \<Rightarrow> bool \<Rightarrow> environ \<Rightarrow> bytes \<Rightarrow> client" where
  "open_client how e x11 env dir =
     (let display = client_display x11 env in
      if x11 \<and> display = [] then new_client
      else
        let display = (if x11 then strip_screen display else display)
        in fst (snd (connect how e (new_client\<lparr>sock := dir @ ''/kdesud_'' @ display\<rparr>))))"

text \<open>Starting the daemon: the program in the installation's directory, or else in the path.\<close>

record server_env =
  sv_libexec :: bytes
  sv_exists :: bool
  sv_in_path :: bytes
  sv_finished :: bool
  sv_exitcode :: int

definition findDaemon :: "server_env \<Rightarrow> bytes" where
  "findDaemon V = (if \<not> sv_exists V then sv_in_path V else sv_libexec V)"

definition startServer :: "server_env \<Rightarrow> owner_check \<Rightarrow> connect_env \<Rightarrow> client \<Rightarrow> int \<times> client" where
  "startServer V how e d =
     (let d = (if daemon d = [] then d\<lparr>daemon := findDaemon V\<rparr> else d) in
      if daemon d = [] then (-1, d)
      else if \<not> sv_finished V then (-1, d)
      else case connect how e d of (ret, d, closed) \<Rightarrow> (sv_exitcode V, d))"

lemma connect_sock: "connect how e d = (ret, d', closed) \<Longrightarrow> sock d' = sock d"
  by (auto simp: connect_def Let_def split: if_splits)

lemma open_client_sock:
  "x11 \<and> client_display x11 env = [] \<or>
     sock (open_client how e x11 env dir) =
       dir @ ''/kdesud_'' @ (if x11 then strip_screen (client_display x11 env) else client_display x11 env)"
  using connect_sock [of how e] by (cases "connect how e (new_client\<lparr>sock := dir @ ''/kdesud_'' @
      (if x11 then strip_screen (client_display x11 env) else client_display x11 env)\<rparr>)")
    (auto simp: open_client_def Let_def)

text \<open>
  Whatever happens, the client ends up with a good descriptor or with a negative one, and it
  has a descriptor exactly if it reports success; a descriptor it gives up is closed.
\<close>

lemma connect_result:
  assumes "connect how e d = (ret, d', closed)"
  shows "ret = 0 \<longleftrightarrow> 0 \<le> sockfd d'" and "ret = 0 \<or> ret = -1"
    and "ret = 0 \<Longrightarrow> sockfd d' = env_socket e \<and> owner_ok how e"
  using assms by (auto simp: connect_def Let_def split: if_splits)

section \<open>The exchange with the daemon\<close>

text \<open>
  \<open>result\<close> is the byte array the caller passes by pointer, \<^const>\<open>None\<close> for the null
  pointer; it is returned as it is after the call. \<open>sends\<close> and \<open>recv\<close> are the answers of
  the system calls of these names.
\<close>

definition command_reply :: "bytes \<Rightarrow> bytes option \<Rightarrow> int \<times> bytes option" where
  "command_reply buf result =
     (let reply = c_str buf in
      if left reply 2 \<noteq> ''OK'' then (-1, result)
      else (0, map_option (\<lambda>_. mid_len reply 3 (int (length reply) - 4)) result))"

definition command :: "client \<Rightarrow> (bytes \<Rightarrow> int) \<Rightarrow> (nat \<Rightarrow> recv_result) \<Rightarrow> bytes \<Rightarrow> bytes option \<Rightarrow> int \<times> bytes option" where
  "command d sends recv cmd result =
     (if sockfd d < 0 then (-1, result)
      else if sends cmd \<noteq> int (length cmd) then (-1, result)
      else case recv 1023 of
        Received buf \<Rightarrow> command_reply buf result
      | _ \<Rightarrow> (-1, result))"

section \<open>The operations\<close>

text \<open>What \<^verbatim>\<open>defaults.h\<close> offers to callers: the timeout of a password, the echo mode, and whether to keep it.\<close>

definition defTimeout :: int where "defTimeout = 120 * 60"
definition defEchoMode :: int where "defEchoMode = 0"
definition defKeep :: bool where "defKeep = False"

text \<open>The password is a C string. \<open>exec\<close> and three settings have a prefix, as other classes have operations of these names.\<close>

definition setPass :: "client \<Rightarrow> (bytes \<Rightarrow> int) \<Rightarrow> (nat \<Rightarrow> recv_result) \<Rightarrow> bytes \<Rightarrow> int \<Rightarrow> int" where
  "setPass d sends recv pass timeout = fst (command d sends recv (setPass_msg (c_str pass) timeout) None)"

definition client_exec :: "client \<Rightarrow> (bytes \<Rightarrow> int) \<Rightarrow> (nat \<Rightarrow> recv_result) \<Rightarrow> bytes \<Rightarrow> bytes \<Rightarrow> bytes \<Rightarrow> bytes list \<Rightarrow> int" where
  "client_exec d sends recv prog user options env = fst (command d sends recv (exec_msg prog user options env) None)"

definition client_setHost :: "client \<Rightarrow> (bytes \<Rightarrow> int) \<Rightarrow> (nat \<Rightarrow> recv_result) \<Rightarrow> bytes \<Rightarrow> int" where
  "client_setHost d sends recv host = fst (command d sends recv (setHost_msg host) None)"

definition client_setPriority :: "client \<Rightarrow> (bytes \<Rightarrow> int) \<Rightarrow> (nat \<Rightarrow> recv_result) \<Rightarrow> int \<Rightarrow> int" where
  "client_setPriority d sends recv prio = fst (command d sends recv (setPriority_msg prio) None)"

definition client_setScheduler :: "client \<Rightarrow> (bytes \<Rightarrow> int) \<Rightarrow> (nat \<Rightarrow> recv_result) \<Rightarrow> int \<Rightarrow> int" where
  "client_setScheduler d sends recv sched = fst (command d sends recv (setScheduler_msg sched) None)"

definition delCommand :: "client \<Rightarrow> (bytes \<Rightarrow> int) \<Rightarrow> (nat \<Rightarrow> recv_result) \<Rightarrow> bytes \<Rightarrow> bytes \<Rightarrow> int" where
  "delCommand d sends recv key user = fst (command d sends recv (delCommand_msg key user) None)"

definition setVar :: "client \<Rightarrow> (bytes \<Rightarrow> int) \<Rightarrow> (nat \<Rightarrow> recv_result) \<Rightarrow> bytes \<Rightarrow> bytes \<Rightarrow> int \<Rightarrow> bytes \<Rightarrow> int" where
  "setVar d sends recv key value timeout grp = fst (command d sends recv (setVar_msg key value timeout grp) None)"

definition delVar :: "client \<Rightarrow> (bytes \<Rightarrow> int) \<Rightarrow> (nat \<Rightarrow> recv_result) \<Rightarrow> bytes \<Rightarrow> int" where
  "delVar d sends recv key = fst (command d sends recv (delVar_msg key) None)"

definition delGroup :: "client \<Rightarrow> (bytes \<Rightarrow> int) \<Rightarrow> (nat \<Rightarrow> recv_result) \<Rightarrow> bytes \<Rightarrow> int" where
  "delGroup d sends recv grp = fst (command d sends recv (delGroup_msg grp) None)"

definition delVars :: "client \<Rightarrow> (bytes \<Rightarrow> int) \<Rightarrow> (nat \<Rightarrow> recv_result) \<Rightarrow> bytes \<Rightarrow> int" where
  "delVars d sends recv special_key = fst (command d sends recv (delVars_msg special_key) None)"

definition ping :: "client \<Rightarrow> (bytes \<Rightarrow> int) \<Rightarrow> (nat \<Rightarrow> recv_result) \<Rightarrow> int" where
  "ping d sends recv = fst (command d sends recv ping_msg None)"

definition stopServer :: "client \<Rightarrow> (bytes \<Rightarrow> int) \<Rightarrow> (nat \<Rightarrow> recv_result) \<Rightarrow> int" where
  "stopServer d sends recv = fst (command d sends recv stopServer_msg None)"

definition getVar :: "client \<Rightarrow> (bytes \<Rightarrow> int) \<Rightarrow> (nat \<Rightarrow> recv_result) \<Rightarrow> bytes \<Rightarrow> bytes" where
  "getVar d sends recv key = the (snd (command d sends recv (getVar_msg key) (Some [])))"

function split_reply :: "bytes \<Rightarrow> nat \<Rightarrow> bytes list \<Rightarrow> bytes list" where
  "split_reply reply index list =
     (let pos = indexOf_char_from reply BEL index in
      if pos = -1 then
        if index = 0 then list @ [reply] else list @ [mid reply (int index)]
      else split_reply reply (nat (pos + 1)) (list @ [mid_len reply (int index) (pos - int index)]))"
  by pat_completeness auto
termination
proof (relation "measure (\<lambda>(reply, index, list). length reply - index)", simp)
  fix reply :: bytes and index :: nat and list :: "bytes list" and pos
  assume pos: "pos = indexOf_char_from reply BEL index" "pos \<noteq> -1"
  define i where "i = indexOf_char (drop index reply) BEL"
  have i: "i \<noteq> -1" "pos = int index + i" using pos
    by (auto simp: indexOf_char_from_def i_def Let_def simp del: indexOf_char_neg split: if_splits)
  from indexOf_char_split [OF i_def [symmetric] i(1)] i(2)
  show "((reply, nat (pos + 1), list @ [mid_len reply (int index) (pos - int index)]), reply, index, list)
      \<in> measure (\<lambda>(reply, index, list). length reply - index)"
    by (simp add: nat_add_distrib)
qed

declare split_reply.simps [simp del]

definition getKeys :: "client \<Rightarrow> (bytes \<Rightarrow> int) \<Rightarrow> (nat \<Rightarrow> recv_result) \<Rightarrow> bytes \<Rightarrow> bytes list" where
  "getKeys d sends recv grp =
     (let reply = the (snd (command d sends recv (getKeys_msg grp) (Some [])))
      in if reply \<noteq> [] then split_reply reply 0 [] else [])"

definition findGroup :: "client \<Rightarrow> (bytes \<Rightarrow> int) \<Rightarrow> (nat \<Rightarrow> recv_result) \<Rightarrow> bytes \<Rightarrow> bool" where
  "findGroup d sends recv grp = (if fst (command d sends recv (findGroup_msg grp) None) = -1 then False else True)"

definition exitCode :: "client \<Rightarrow> (bytes \<Rightarrow> int) \<Rightarrow> (nat \<Rightarrow> recv_result) \<Rightarrow> int" where
  "exitCode d sends recv =
     (let (ret, result) = command d sends recv exitCode_msg (Some [])
      in if ret \<noteq> 0 then -1 else toInt (the result))"

end
