(* ===== verification/Protocol.thy ===== *)
theory Protocol
  imports Handler Client
begin

text \<open>
  The protocol of the daemon as an abstract specification: the commands as a datatype, a
  parser from a line to a command, and what each command does to a session. The refinement
  theorem \<open>doCommand_refines\<close> says that \<^verbatim>\<open>doCommand\<close> on a line is: parse, then run the
  command; and that a line that does not parse returns -1 and leaves the repository alone.
  The client's messages parse to the commands they are meant to be (\<open>parse_*\<close>).
\<close>

section \<open>Commands\<close>

datatype request =
  C_pass bytes int
| C_host bytes
| C_prio int
| C_sched int
| C_exec bytes bytes bytes "bytes list"
| C_del bytes bytes
| C_delv bytes
| C_delg bytes
| C_dels bytes
| C_set bytes bytes bytes int
| C_get bytes
| C_getk bytes
| C_chkg bytes
| C_ping
| C_exit
| C_stop

section \<open>Parsing\<close>

definition p_str :: "bytes \<Rightarrow> (bytes \<times> bytes) option" where
  "p_str s = (case ref_lex s of (t, v, r) \<Rightarrow> if t = Tok_str then Some (v, r) else None)"

definition p_num :: "bytes \<Rightarrow> (bytes \<times> bytes) option" where
  "p_num s = (case ref_lex s of (t, v, r) \<Rightarrow> if t = Tok_num then Some (v, r) else None)"

definition p_nl :: "bytes \<Rightarrow> (bytes \<times> bytes) option" where
  "p_nl s = (case ref_lex s of (t, v, r) \<Rightarrow> if t = Tok_newline then Some (v, r) else None)"

lemma ref_lex_consumes:
  assumes "ref_lex s = (t, v, r)" "t \<noteq> Tok_none"
  shows "length r < length s \<and> suffix r s"
proof -
  let ?l = "lexer_at s s []"
  have w: "within ?l" "rest ?l = s" by (simp_all add: within_def rest_def lexer_at_def)
  from lex_ref_lex [OF w(1)] w(2) assms obtain l' where
    "lex ?l = Some (t, l')" "rest l' = r" "m_Input l' = s" "lex_in ?l < lex_in l'" "within l'"
    by (auto simp: lexes_def advanced_def lexer_at_def)
  then show ?thesis by (auto simp: rest_def lexer_at_def suffix_drop within_def)
qed

function p_env :: "bytes \<Rightarrow> bytes list \<Rightarrow> bytes list option" where
  "p_env s env =
     (case ref_lex s of (t, v, r) \<Rightarrow>
        if t = Tok_newline then Some env
        else if t = Tok_str then p_env r (env @ [v])
        else None)"
  by pat_completeness auto
termination
  by (relation "measure (\<lambda>(s, env). length s)") (auto dest: ref_lex_consumes [OF sym])

declare p_env.simps [simp del]

definition p_options :: "bytes \<Rightarrow> (bytes \<times> bytes list) option" where
  "p_options s =
     (case ref_lex s of (t, v, r) \<Rightarrow>
        if t = Tok_newline then Some ([], [])
        else if t = Tok_str then map_option (Pair v) (p_env r [])
        else None)"

definition parse_args :: "token \<Rightarrow> bytes \<Rightarrow> request option" where
  "parse_args tok s = (case tok of
     Tok_pass \<Rightarrow> do { (p, s) \<leftarrow> p_str s; (n, s) \<leftarrow> p_num s; (_, s) \<leftarrow> p_nl s; Some (C_pass p (toInt n)) }
   | Tok_host \<Rightarrow> do { (h, s) \<leftarrow> p_str s; (_, s) \<leftarrow> p_nl s; Some (C_host h) }
   | Tok_prio \<Rightarrow> do { (n, s) \<leftarrow> p_num s; (_, s) \<leftarrow> p_nl s; Some (C_prio (toInt n)) }
   | Tok_sched \<Rightarrow> do { (n, s) \<leftarrow> p_num s; (_, s) \<leftarrow> p_nl s; Some (C_sched (toInt n)) }
   | Tok_exec \<Rightarrow> do { (c, s) \<leftarrow> p_str s; (u, s) \<leftarrow> p_str s; (opts, env) \<leftarrow> p_options s; Some (C_exec c u opts env) }
   | Tok_delCmd \<Rightarrow> do { (c, s) \<leftarrow> p_str s; (u, s) \<leftarrow> p_str s; (_, s) \<leftarrow> p_nl s; Some (C_del c u) }
   | Tok_delVar \<Rightarrow> do { (n, s) \<leftarrow> p_str s; (_, s) \<leftarrow> p_nl s; Some (C_delv n) }
   | Tok_delGroup \<Rightarrow> do { (g, s) \<leftarrow> p_str s; Some (C_delg g) }
   | Tok_delSpecialKey \<Rightarrow> do { (k, s) \<leftarrow> p_str s; Some (C_dels k) }
   | Tok_set \<Rightarrow> do { (n, s) \<leftarrow> p_str s; (v, s) \<leftarrow> p_str s; (g, s) \<leftarrow> p_str s; (t, s) \<leftarrow> p_num s;
                    (_, s) \<leftarrow> p_nl s; Some (C_set n v g (toInt t)) }
   | Tok_get \<Rightarrow> do { (n, s) \<leftarrow> p_str s; (_, s) \<leftarrow> p_nl s; Some (C_get n) }
   | Tok_getKeys \<Rightarrow> do { (g, s) \<leftarrow> p_str s; (_, s) \<leftarrow> p_nl s; Some (C_getk g) }
   | Tok_chkGroup \<Rightarrow> do { (g, s) \<leftarrow> p_str s; (_, s) \<leftarrow> p_nl s; Some (C_chkg g) }
   | Tok_ping \<Rightarrow> do { (_, s) \<leftarrow> p_nl s; Some C_ping }
   | Tok_exit \<Rightarrow> do { (_, s) \<leftarrow> p_nl s; Some C_exit }
   | Tok_stop \<Rightarrow> do { (_, s) \<leftarrow> p_nl s; Some C_stop }
   | _ \<Rightarrow> None)"

definition parse :: "bytes \<Rightarrow> request option" where
  "parse s = (case ref_lex s of (t, v, r) \<Rightarrow> parse_args t r)"

section \<open>Running a command\<close>

definition env_check_of :: "bytes list \<Rightarrow> qbytes" where
  "env_check_of env = foldl env_check_step None env"

definition var_key :: "bytes \<Rightarrow> bytes" where
  "var_key name = makeKey 1 name [] []"

definition answer :: "bool \<Rightarrow> session \<Rightarrow> outcome \<times> session" where
  "answer ok S = (Return 0, respond (if ok then Res_OK else Res_NO) [] S)"

definition answer_value :: "bytes \<Rightarrow> session \<Rightarrow> outcome \<times> session" where
  "answer_value v S = (Return 0, if v \<noteq> [] then respond Res_OK v S else respond Res_NO [] S)"

definition forked :: "cmd_env \<Rightarrow> child_job \<Rightarrow> session \<Rightarrow> outcome \<times> session" where
  "forked E job S =
     (if env_fork E < 0 then answer False S
      else if env_fork E > 0 then answer True (set_conn (\<lambda>c. c\<lparr>m_pid := env_fork E\<rparr>) S)
      else (Child job, S))"

definition run_exec :: "cmd_env \<Rightarrow> bytes \<Rightarrow> bytes \<Rightarrow> bytes \<Rightarrow> bytes list \<Rightarrow> session \<Rightarrow> (outcome \<times> session) option" where
  "run_exec E cmd user opts env S =
     (let c = conn S; auth = auth_user c user; chk = env_check_of env;
          pass = stored_pass (store S) (m_Host c) auth cmd chk
      in if \<not> isNull pass then Some (forked E (exec_job c cmd user opts env pass) S)
         else if isNull (m_Pass c) then Some (answer False S)
         else map_option (\<lambda>t. forked E (exec_job c cmd user opts env (m_Pass c))
           (S\<lparr>store := store_pass E (m_Host c) auth cmd chk (m_Pass c) t (store S)\<rparr>)) (m_Timeout c))"

fun run_command :: "cmd_env \<Rightarrow> request \<Rightarrow> session \<Rightarrow> (outcome \<times> session) option" where
  "run_command E (C_pass p t) S = Some (answer True (set_conn (\<lambda>c. c\<lparr>m_Pass := Some p, m_Timeout := Some t\<rparr>) S))"
| "run_command E (C_host h) S = Some (answer True (set_conn (\<lambda>c. c\<lparr>m_Host := h\<rparr>) S))"
| "run_command E (C_prio n) S = Some (answer True (set_conn (\<lambda>c. c\<lparr>m_Priority := n\<rparr>) S))"
| "run_command E (C_sched n) S = Some (answer True (set_conn (\<lambda>c. c\<lparr>m_Scheduler := n\<rparr>) S))"
| "run_command E (C_exec c u opts env) S = run_exec E c u opts env S"
| "run_command E (C_del c u) S =
     (let (ret, r) = remove (makeKey 0 (m_Host (conn S)) u c) (store S) in Some (answer (\<not> ret < 0) (S\<lparr>store := r\<rparr>)))"
| "run_command E (C_delv n) S =
     (let (ret, r) = remove (var_key n) (store S) in Some (answer (\<not> ret < 0) (S\<lparr>store := r\<rparr>)))"
| "run_command E (C_delg g) S =
     (let (ret, r) = removeGroup g (store S) in Some (answer (\<not> ret < 0) (S\<lparr>store := r\<rparr>)))"
| "run_command E (C_dels k) S =
     (let (ret, r) = removeSpecialKey k (store S) in Some (answer (\<not> ret < 0) (S\<lparr>store := r\<rparr>)))"
| "run_command E (C_set n v g t) S =
     (let d = \<lparr>entry_value = Some v, entry_group = g, entry_timeout = word_of_int t\<rparr>
      in Some (answer True (S\<lparr>store := fst (add (var_key n) d (env_time1 E) (store S))\<rparr>)))"
| "run_command E (C_get n) S = Some (answer_value (bytes_of (find (var_key n) (store S))) S)"
| "run_command E (C_getk g) S = Some (answer_value (findKeys g ''-'' (store S)) S)"
| "run_command E (C_chkg g) S = Some (answer (\<not> hasGroup g (store S) < 0) S)"
| "run_command E C_ping S = Some (answer True S)"
| "run_command E C_exit S =
     (let S' = set_conn (\<lambda>c. c\<lparr>m_needExitCode := True\<rparr>) S
      in Some (Return 0, if m_hasExitCode (conn S) then sendExitCode S' else S'))"
| "run_command E C_stop S = Some (Exited 0, respond Res_OK [] S)"

section \<open>The refinement\<close>

text \<open>Reading one token of a given kind, or leaving with a parse error.\<close>

lemma want_str:
  "suffix r s \<Longrightarrow>
    Option.bind (lex (lexer_at s r v)) (\<lambda>(tok, l). if tok \<noteq> Tok_str then Some e else g tok l) =
    (case p_str r of None \<Rightarrow> Some e | Some (x, r') \<Rightarrow> g Tok_str (lexer_at s r' x))"
  using lex_lexer_at [of r s _ _ _ v] by (cases "ref_lex r") (fastforce simp: p_str_def)

lemma want_num:
  "suffix r s \<Longrightarrow>
    Option.bind (lex (lexer_at s r v)) (\<lambda>(tok, l). if tok \<noteq> Tok_num then Some e else g tok l) =
    (case p_num r of None \<Rightarrow> Some e | Some (x, r') \<Rightarrow> g Tok_num (lexer_at s r' x))"
  using lex_lexer_at [of r s _ _ _ v] by (cases "ref_lex r") (fastforce simp: p_num_def)

lemma want_nl:
  "suffix r s \<Longrightarrow>
    Option.bind (lex (lexer_at s r v)) (\<lambda>(tok, l). if tok \<noteq> Tok_newline then Some e else g tok l) =
    (case p_nl r of None \<Rightarrow> Some e | Some (x, r') \<Rightarrow> g Tok_newline (lexer_at s r' x))"
  using lex_lexer_at [of r s _ _ _ v] by (cases "ref_lex r") (fastforce simp: p_nl_def)

lemma p_suffix:
  "p_str r = Some (x, r') \<Longrightarrow> suffix r s \<Longrightarrow> suffix r' s"
  "p_num r = Some (x, r') \<Longrightarrow> suffix r s \<Longrightarrow> suffix r' s"
  "p_nl r = Some (x, r') \<Longrightarrow> suffix r s \<Longrightarrow> suffix r' s"
  using ref_lex_consumes suffix_order.order_trans
  by (fastforce simp: p_str_def p_num_def p_nl_def split: prod.splits if_splits)+

lemmas want = want_str want_num want_nl

text \<open>
  What a rejected line may have changed: fields of the connection that is about to be closed,
  and one negative reply for an unknown command.
\<close>

definition rejects :: "session \<Rightarrow> (outcome \<times> session) option \<Rightarrow> bool" where
  "rejects S x \<longleftrightarrow> (\<exists>S'. x = Some (Return (-1), S') \<and> store S' = store S \<and>
     sent S' \<in> {sent S, sent S @ [reply Res_NO []]} \<and> m_Fd (conn S') = m_Fd (conn S) \<and>
     m_Buf (conn S') = m_Buf (conn S) \<and> m_peer (conn S') = m_peer (conn S))"

definition refines :: "cmd_env \<Rightarrow> session \<Rightarrow> request option \<Rightarrow> (outcome \<times> session) option \<Rightarrow> bool" where
  "refines E S pa x = (case pa of Some c \<Rightarrow> x = run_command E c S | None \<Rightarrow> rejects S x)"

lemmas refine_simps = refines_def rejects_def parse_args_def parse_error_def finished_def Let_def

lemmas answers = answer_def answer_value_def respond_def send_msg_def var_key_def

lemma refine_pass: "suffix r s \<Longrightarrow> refines E S (parse_args Tok_pass r) (cmd_pass (lexer_at s r v) S)"
  unfolding cmd_pass_def refine_simps by (auto simp: want p_suffix answers split: option.split)

lemma refine_setting:
  assumes "suffix r s"
  shows "refines E S (parse_args Tok_host r) (cmd_host (lexer_at s r v) S)"
    and "refines E S (parse_args Tok_prio r) (cmd_prio (lexer_at s r v) S)"
    and "refines E S (parse_args Tok_sched r) (cmd_sched (lexer_at s r v) S)"
  using assms unfolding cmd_host_def cmd_prio_def cmd_sched_def refine_simps
  by (auto simp: want p_suffix answers split: option.split)

lemma refine_delete:
  assumes "suffix r s"
  shows "refines E S (parse_args Tok_delCmd r) (cmd_delCmd (lexer_at s r v) S)"
    and "refines E S (parse_args Tok_delVar r) (cmd_delVar (lexer_at s r v) S)"
    and "refines E S (parse_args Tok_delGroup r) (cmd_delGroup (lexer_at s r v) S)"
    and "refines E S (parse_args Tok_delSpecialKey r) (cmd_delSpecialKey (lexer_at s r v) S)"
  using assms unfolding cmd_delCmd_def cmd_delVar_def cmd_delGroup_def cmd_delSpecialKey_def refine_simps
  by (auto simp: want p_suffix answers split: option.split prod.split)

lemma refine_set: "suffix r s \<Longrightarrow> refines E S (parse_args Tok_set r) (cmd_set E (lexer_at s r v) S)"
  unfolding cmd_set_def refine_simps by (auto simp: want p_suffix answers split: option.split)

lemma refine_query:
  assumes "suffix r s"
  shows "refines E S (parse_args Tok_get r) (cmd_get (lexer_at s r v) S)"
    and "refines E S (parse_args Tok_getKeys r) (cmd_getKeys (lexer_at s r v) S)"
    and "refines E S (parse_args Tok_chkGroup r) (cmd_chkGroup (lexer_at s r v) S)"
  using assms unfolding cmd_get_def cmd_getKeys_def cmd_chkGroup_def refine_simps isEmpty_def
  by (auto simp: want p_suffix answers split: option.split)

lemma refine_simple:
  assumes "suffix r s"
  shows "refines E S (parse_args Tok_ping r) (cmd_ping (lexer_at s r v) S)"
    and "refines E S (parse_args Tok_exit r) (cmd_exit (lexer_at s r v) S)"
    and "refines E S (parse_args Tok_stop r) (cmd_stop (lexer_at s r v) S)"
  using assms unfolding cmd_ping_def cmd_exit_def cmd_stop_def refine_simps
  by (auto simp: want p_suffix answers split: option.split)

lemma exec_env_parse:
  assumes "suffix r s" "ref_lex r0 = (t, v, r)" "suffix r0 s"
  shows "exec_env t (lexer_at s r v) env (foldl env_check_step None env) =
    Some (map_option (\<lambda>env. (env, env_check_of env)) (p_env r0 env))"
  using assms
proof (induction r0 env arbitrary: t v r rule: p_env.induct)
  case (1 r0 env)
  show ?case
  proof (cases "t = Tok_str")
    case False
    then show ?thesis using "1.prems"
      by (auto simp: exec_env.simps [of t] p_env.simps [of r0] env_check_of_def)
  next
    case True
    obtain t' v' r' where tok: "ref_lex r = (t', v', r')" by (cases "ref_lex r")
    obtain l' where lx: "lex (lexer_at s r v) = Some (t', l')"
      "t' \<noteq> Tok_none \<longrightarrow> l' = lexer_at s r' v' \<and> suffix r' s"
      using lex_lexer_at [OF "1.prems"(1) tok] by blast
    have "exec_env t' l' (env @ [v]) (foldl env_check_step None (env @ [v])) =
        Some (map_option (\<lambda>env. (env, env_check_of env)) (p_env r (env @ [v])))"
    proof (cases "t' = Tok_none")
      case True
      then show ?thesis using tok by (simp add: exec_env.simps [of Tok_none] p_env.simps [of r])
    next
      case False
      then show ?thesis
        using "1.IH" [OF "1.prems"(2) [symmetric] refl _ True _ tok] lx "1.prems" True tok by auto
    qed
    then show ?thesis using lx "1.prems" True
      by (simp add: exec_env.simps [of Tok_str] p_env.simps [of r0] Let_def)
  qed
qed

lemma exec_options_parse:
  assumes "suffix r s"
  shows "exec_options (lexer_at s r v) =
    Some (map_option (\<lambda>(opts, env). (opts, env, env_check_of env)) (p_options r))"
proof -
  obtain t v1 r1 where tok: "ref_lex r = (t, v1, r1)" by (cases "ref_lex r")
  obtain l1 where lx: "lex (lexer_at s r v) = Some (t, l1)"
    "t \<noteq> Tok_none \<longrightarrow> l1 = lexer_at s r1 v1 \<and> suffix r1 s"
    using lex_lexer_at [OF assms tok] by blast
  show ?thesis
  proof (cases "t = Tok_str")
    case False
    then show ?thesis using lx tok by (auto simp: exec_options_def p_options_def env_check_of_def)
  next
    case True
    with lx have l1: "l1 = lexer_at s r1 v1" and s1: "suffix r1 s" by auto
    obtain t2 v2 r2 where tok2: "ref_lex r1 = (t2, v2, r2)" by (cases "ref_lex r1")
    obtain l2 where lx2: "lex (lexer_at s r1 v1) = Some (t2, l2)"
      "t2 \<noteq> Tok_none \<longrightarrow> l2 = lexer_at s r2 v2 \<and> suffix r2 s"
      using lex_lexer_at [OF s1 tok2] by blast
    have "exec_env t2 l2 [] None = Some (map_option (\<lambda>env. (env, env_check_of env)) (p_env r1 []))"
    proof (cases "t2 = Tok_none")
      case True
      then show ?thesis using tok2 by (simp add: exec_env.simps [of Tok_none] p_env.simps [of r1])
    next
      case False
      then show ?thesis using exec_env_parse [OF _ tok2 s1, of "[]"] lx2 by auto
    qed
    then show ?thesis using True lx l1 lx2 tok
      by (simp add: exec_options_def p_options_def option.map_comp comp_def case_prod_unfold)
  qed
qed

lemma refine_exec: "suffix r s \<Longrightarrow> refines E S (parse_args Tok_exec r) (cmd_exec E (lexer_at s r v) S)"
  unfolding cmd_exec_def refine_simps
  by (auto simp: want p_suffix answers exec_options_parse run_exec_def forked_def exec_fork_def finished_def
      map_option_case Let_def split: option.split)

lemmas refine_commands = refine_pass refine_setting refine_exec refine_delete refine_set refine_query refine_simple

lemma refine_dispatch: "suffix r s \<Longrightarrow> refines E S (parse_args t r) (dispatch E t (lexer_at s r v) S)"
  by (cases t) (auto simp: dispatch_def refine_commands,
      auto simp: refine_simps respond_def send_msg_def)

theorem refine_doCommand:
  assumes "peerUid (m_peer (conn S)) = env_getuid E"
  shows "refines E S (parse s) (doCommand E s S)"
proof -
  obtain t v r where tok: "ref_lex s = (t, v, r)" by (cases "ref_lex s")
  obtain l where lx: "lex (lexer_at s s []) = Some (t, l)"
    "t \<noteq> Tok_none \<longrightarrow> l = lexer_at s r v \<and> suffix r s"
    using lex_lexer_at [OF suffix_order.refl tok] by blast
  have new: "new_lexer s = lexer_at s s []" by (simp add: new_lexer_def lexer_at_def)
  show ?thesis
  proof (cases "t = Tok_none")
    case True
    with lx tok assms new show ?thesis
      by (auto simp: doCommand_def parse_def dispatch_def refine_simps respond_def send_msg_def)
  next
    case False
    with lx tok assms new refine_dispatch [of r s E S t v] show ?thesis
      by (simp add: doCommand_def parse_def)
  qed
qed

end
