(* ===== verification/Roundtrip.thy ===== *)
theory Roundtrip
  imports Protocol
begin

text \<open>
  Client and daemon together: each message of \<^verbatim>\<open>KDESu::Client\<close> is parsed by the daemon as
  the command it was built for, with the arguments the caller gave. Strings must not hold the
  byte 127, numbers must be non-negative values of type \<^verbatim>\<open>int\<close>; the last lemmas show
  what happens otherwise.
\<close>

definition sendable :: "bytes \<Rightarrow> bool" where
  "sendable s \<longleftrightarrow> DEL \<notin> set s"

definition sendable_num :: "int \<Rightarrow> bool" where
  "sendable_num n \<longleftrightarrow> 0 \<le> n \<and> n \<le> int_max"

lemma p_str_escape [simp]: "sendable s \<Longrightarrow> p_str (CHR '' '' # escape s @ r) = Some (s, r)"
  by (simp add: p_str_def sendable_def)

lemma p_nl_NL [simp]: "p_nl [NL] = Some ([], [])"
  by (simp add: p_nl_def)

lemma p_num_setNum [simp]:
  assumes "sendable_num n"
  shows "p_num (CHR '' '' # setNum n @ [NL]) = Some (setNum n, [NL])"
proof -
  have dec: "is_dec (setNum n)" using assms setNum_nat_digits [of n] by (simp add: sendable_num_def is_dec_def list_all_iff)
  then have hd: "isdigit (hd (setNum n @ [NL]))" by (cases "setNum n") (auto simp: is_dec_def)
  have "ref_lex (CHR '' '' # setNum n @ [NL]) = ref_lex (setNum n @ [NL])"
    using hd by (intro ref_lex_blank) (auto simp: ctype)
  also have "\<dots> = (Tok_num, setNum n, [NL])"
    by (rule ref_lex_number [OF dec]) (simp_all add: ctype)
  finally show ?thesis by (simp add: p_num_def)
qed

lemma toInt_sendable [simp]: "sendable_num n \<Longrightarrow> toInt (setNum n) = n"
  by (rule toInt_setNum) (auto simp: sendable_num_def in_int_def int_max_def)

text \<open>The words that start a message.\<close>

lemma parse_word:
  assumes "w \<noteq> []" "\<forall>c \<in> set w. word_char c" "\<not> isdigit (hd w)" "hd w \<noteq> DQUOTE"
    and "r \<noteq> []" "\<not> word_char (hd r)"
  shows "parse (w @ r) = parse_args (keyword w) r"
  using ref_lex_word [OF assms] by (simp add: parse_def)

lemma p_env_args:
  "list_all sendable vs \<Longrightarrow> p_env (env_args vs @ [NL]) env = Some (env @ vs)"
proof (induction vs arbitrary: env)
  case Nil
  then show ?case by (simp add: p_env.simps)
next
  case (Cons v vs)
  then show ?case by (simp add: p_env.simps [of "CHR '' '' # w" for w] sendable_def)
qed

lemma p_options_args:
  assumes "sendable opts" "list_all sendable env"
  shows "p_options ((if opts \<noteq> [] \<or> env \<noteq> [] then '' '' @ escape opts @ env_args env else []) @ [NL]) =
    Some (opts, env)"
  using assms by (auto simp: p_options_def p_env_args sendable_def)

section \<open>The messages\<close>

lemmas message = parse_args_def keyword_def word_char_def ctype

lemma parse_setPass: "sendable p \<Longrightarrow> sendable_num t \<Longrightarrow> parse (setPass_msg p t) = Some (C_pass p t)"
  using parse_word [of "''PASS''" "'' '' @ escape p @ '' '' @ setNum t @ [NL]"]
  by (simp add: setPass_msg_def message)

lemma parse_setHost: "sendable h \<Longrightarrow> parse (setHost_msg h) = Some (C_host h)"
  using parse_word [of "''HOST''" "'' '' @ escape h @ [NL]"] by (simp add: setHost_msg_def message)

lemma parse_setPriority: "sendable_num n \<Longrightarrow> parse (setPriority_msg n) = Some (C_prio n)"
  using parse_word [of "''PRIO''" "'' '' @ setNum n @ [NL]"] by (simp add: setPriority_msg_def message)

lemma parse_setScheduler: "sendable_num n \<Longrightarrow> parse (setScheduler_msg n) = Some (C_sched n)"
  using parse_word [of "''SCHD''" "'' '' @ setNum n @ [NL]"] by (simp add: setScheduler_msg_def message)

lemma parse_exec:
  assumes "sendable c" "sendable u" "sendable opts" "list_all sendable env"
  shows "parse (exec_msg c u opts env) = Some (C_exec c u opts env)"
  using assms parse_word [of "''EXEC''" "'' '' @ escape c @ '' '' @ escape u @
      (if opts \<noteq> [] \<or> env \<noteq> [] then '' '' @ escape opts @ env_args env else []) @ [NL]"]
    p_options_args [OF assms(3,4)]
  by (simp add: exec_msg_def message del: if_split)

lemma parse_delCommand: "sendable c \<Longrightarrow> sendable u \<Longrightarrow> parse (delCommand_msg c u) = Some (C_del c u)"
  using parse_word [of "''DEL''" "'' '' @ escape c @ '' '' @ escape u @ [NL]"]
  by (simp add: delCommand_msg_def message)

lemma parse_setVar:
  assumes "sendable k" "sendable v" "sendable g" "sendable_num t"
  shows "parse (setVar_msg k v t g) = Some (C_set k v g t)"
  using assms parse_word [of "''SET''" "'' '' @ escape k @ '' '' @ escape v @ '' '' @ escape g @ '' '' @ setNum t @ [NL]"]
  by (simp add: setVar_msg_def message)

lemma parse_getVar: "sendable k \<Longrightarrow> parse (getVar_msg k) = Some (C_get k)"
  using parse_word [of "''GET''" "'' '' @ escape k @ [NL]"] by (simp add: getVar_msg_def message)

lemma parse_getKeys: "sendable g \<Longrightarrow> parse (getKeys_msg g) = Some (C_getk g)"
  using parse_word [of "''GETK''" "'' '' @ escape g @ [NL]"] by (simp add: getKeys_msg_def message)

lemma parse_findGroup: "sendable g \<Longrightarrow> parse (findGroup_msg g) = Some (C_chkg g)"
  using parse_word [of "''CHKG''" "'' '' @ escape g @ [NL]"] by (simp add: findGroup_msg_def message)

lemma parse_delVar: "sendable k \<Longrightarrow> parse (delVar_msg k) = Some (C_delv k)"
  using parse_word [of "''DELV''" "'' '' @ escape k @ [NL]"] by (simp add: delVar_msg_def message)

lemma parse_delGroup: "sendable g \<Longrightarrow> parse (delGroup_msg g) = Some (C_delg g)"
  using parse_word [of "''DELG''" "'' '' @ escape g @ [NL]"] by (simp add: delGroup_msg_def message)

lemma parse_delVars: "sendable k \<Longrightarrow> parse (delVars_msg k) = Some (C_dels k)"
  using parse_word [of "''DELS''" "'' '' @ escape k @ [NL]"] by (simp add: delVars_msg_def message)

lemma parse_simple:
  "parse ping_msg = Some C_ping" "parse exitCode_msg = Some C_exit" "parse stopServer_msg = Some C_stop"
  using parse_word [of "''PING''" "[NL]"] parse_word [of "''EXIT''" "[NL]"] parse_word [of "''STOP''" "[NL]"]
  by (simp_all add: ping_msg_def exitCode_msg_def stopServer_msg_def message)

lemmas parse_messages = parse_setPass parse_setHost parse_setPriority parse_setScheduler parse_exec
  parse_delCommand parse_setVar parse_getVar parse_getKeys parse_findGroup parse_delVar
  parse_delGroup parse_delVars parse_simple

section \<open>Messages that do not parse\<close>

lemma p_str_escape_DEL: "\<not> sendable s \<Longrightarrow> p_str (CHR '' '' # escape s @ r) = None"
  using ref_lex_escape_DEL [of s r] by (auto simp: p_str_def sendable_def split: prod.splits)

lemma setNum_negative: "n < 0 \<Longrightarrow> setNum n = CHR ''-'' # dec_nat (nat (- n))"
  by (simp add: setNum_def)

lemma p_num_negative:
  assumes "n < 0"
  shows "p_num (CHR '' '' # setNum n @ r) = None"
proof -
  have "p_num (CHR '' '' # setNum n @ r) = p_num (setNum n @ r)"
    using ref_lex_blank [of "setNum n @ r"] assms by (simp add: p_num_def setNum_negative ctype)
  also have "\<dots> = None"
    using assms by (auto simp: p_num_def setNum_negative ref_lex_def ref_token_def keyword_def ctype)
  finally show ?thesis .
qed

lemma parse_setPass_DEL: "\<not> sendable p \<Longrightarrow> parse (setPass_msg p t) = None"
  using parse_word [of "''PASS''" "'' '' @ escape p @ '' '' @ setNum t @ [NL]"]
  by (simp add: setPass_msg_def message p_str_escape_DEL)

lemma parse_setVar_negative:
  assumes "sendable k" "sendable v" "sendable g" "t < 0"
  shows "parse (setVar_msg k v t g) = None"
  using assms parse_word [of "''SET''" "'' '' @ escape k @ '' '' @ escape v @ '' '' @ escape g @ '' '' @ setNum t @ [NL]"]
    p_num_negative [OF assms(4), of "[NL]"]
  by (simp add: setVar_msg_def message)

section \<open>From a message to its effect\<close>

definition peer_ok :: "cmd_env \<Rightarrow> session \<Rightarrow> bool" where
  "peer_ok E S \<longleftrightarrow> peerUid (m_peer (conn S)) = env_getuid E"

lemma doCommand_msg: "peer_ok E S \<Longrightarrow> parse m = Some c \<Longrightarrow> doCommand E m S = run_command E c S"
  using refine_doCommand [of S E m] by (simp add: peer_ok_def refines_def)

lemma doCommand_unparsed:
  "peer_ok E S \<Longrightarrow> parse m = None \<Longrightarrow> \<exists>S'. doCommand E m S = Some (Return (-1), S') \<and> store S' = store S"
  using refine_doCommand [of S E m] by (auto simp: peer_ok_def refines_def rejects_def)

section \<open>From a reply to its value\<close>

lemma take_OK: "take 2 (''OK'' @ r) = ''OK''"
  by simp

lemma command_reply_OK:
  assumes "NUL \<notin> set v" "v \<noteq> []"
  shows "command_reply (reply Res_OK v) (Some x) = (0, Some v)"
  using assms by (simp add: command_reply_def reply_def c_str_id left_def mid_len_def Let_def)

lemma command_reply_bare:
  "command_reply (reply Res_OK []) (Some x) = (0, Some [])"
  "command_reply (reply Res_NO []) res = (-1, res)"
  by (simp_all add: command_reply_def reply_def c_str_id left_def mid_len_def Let_def)

lemma split_reply_join:
  assumes "\<forall>k \<in> set ks. BEL \<notin> set k" "ks \<noteq> []"
  shows "split_reply (pre @ join_bel ks) (length pre) list = list @ ks"
  using assms
proof (induction ks arbitrary: pre list rule: join_bel.induct)
  case (2 k)
  then have "indexOf_char_from (pre @ k) BEL (length pre) = -1" by (simp add: indexOf_char_from_def)
  then show ?case by (simp add: split_reply.simps [of _ "length pre"] mid_def)
next
  case (3 k k' ks)
  have "indexOf_char_from (pre @ k @ BEL # join_bel (k' # ks)) BEL (length pre) = int (length pre + length k)"
    using 3 indexOf_char_first [of BEL k] by (simp add: indexOf_char_from_def Let_def)
  then show ?case using 3 "3.IH" [of "pre @ k @ [BEL]" "list @ [k]"]
    by (simp add: split_reply.simps [of _ "length pre"] mid_len_def nat_add_distrib Let_def)
qed simp

section \<open>The listing of a group\<close>

text \<open>
  The client takes the daemon's answer to GETK apart into the names that the daemon joined.
\<close>

lemma getKeys_splits_listing:
  assumes "\<forall>k \<in> set ks. BEL \<notin> set k \<and> NUL \<notin> set k \<and> k \<noteq> []"
    and "length (join_bel ks) \<le> 1019" and "0 \<le> sockfd d"
  shows "getKeys d (\<lambda>cmd. int (length cmd))
      (recv_of (if join_bel ks \<noteq> [] then reply Res_OK (join_bel ks) else reply Res_NO [])) g = ks"
proof (cases "ks = []")
  case True
  then show ?thesis
    using assms(3) by (simp add: getKeys_def command_def recv_of_all reply_def command_reply_bare [unfolded reply_def, simplified])
next
  case False
  have nul: "NUL \<notin> set (join_bel ks)"
    using assms(1) by (induction ks rule: join_bel.induct) auto
  have ne: "join_bel ks \<noteq> []" using False assms(1) join_bel_Nil [of ks] by blast
  have "recv_of (reply Res_OK (join_bel ks)) 1023 = Received (reply Res_OK (join_bel ks))"
    by (rule recv_of_all) (use assms(2) in \<open>simp_all add: reply_def\<close>)
  then show ?thesis
    using assms(1,3) False ne command_reply_OK [OF nul ne, of "[]"] split_reply_join [of ks "[]" "[]"]
    by (simp add: getKeys_def command_def)
qed

text \<open>A name in a listing is in one of its parts.\<close>

lemma sublist_join_bel:
  assumes "sublist n (join_bel ks)" and "n \<noteq> []" and "BEL \<notin> set n"
  shows "\<exists>k \<in> set ks. sublist n k"
  using assms(1)
proof (induction ks rule: join_bel.induct)
  case (3 k k' ks)
  have no: "\<not> prefix m (BEL # j)" if "m \<noteq> []" "set m \<subseteq> set n" for m j
    using that assms(3) by (cases m) auto
  from "3.prems" have "sublist n (k @ BEL # join_bel (k' # ks))" by simp
  then consider "sublist n k" | "sublist n (BEL # join_bel (k' # ks))"
    | m j where "n = m @ j" "suffix m k" "prefix j (BEL # join_bel (k' # ks))"
    unfolding sublist_append by blast
  then show ?case
  proof cases
    case 2
    then show ?thesis using "3.IH" no [of n] assms(2) by (auto simp: sublist_Cons_right)
  next
    case 3
    then have "j = []" using no [of j] by auto
    then show ?thesis using 3 by auto
  qed simp
qed (use assms(2) in auto)

end
