(* ===== verification/Handle.thy ===== *)
theory Handle
  imports Roundtrip
begin

text \<open>
  \<^verbatim>\<open>ConnectionHandler::handle()\<close> of \<^verbatim>\<open>src/src/kdesud/handler.cpp\<close>: reading from the
  socket into \<^verbatim>\<open>m_Buf\<close> and running every complete line. \<open>recv\<close> is an argument: the
  answer of the system for the number of bytes asked for.

  \<open>serve\<close> is what this amounts to: the lines of a byte stream, parsed and run one after the
  other. The lemmas show that \<open>handle\<close> implements \<open>serve\<close>, that no call has undefined
  behaviour, that the buffer stays below its limit, that the session's invariant is kept, and
  that it does not matter how the stream is cut into reads.
\<close>

section \<open>The code\<close>

definition BUF_SIZE :: nat where
  "BUF_SIZE = 1024"

text \<open>
  The part of the loop body before \<^verbatim>\<open>doCommand\<close>: with \<^verbatim>\<open>n\<close> the position behind the
  newline, the line is copied out, the rest is moved to the front, its old place overwritten.
\<close>

definition cut_line :: "nat \<Rightarrow> bytes \<Rightarrow> bytes \<times> bytes" where
  "cut_line n buf =
     (let newbuf = take n buf;
          nsize = length buf - n;
          moved = drop n buf @ drop nsize buf;
          cleared = take nsize moved @ replicate n (CHR ''x'')
      in (newbuf, take nsize cleared))"

lemma cut_line: "n \<le> length buf \<Longrightarrow> cut_line n buf = (take n buf, drop n buf)"
  by (simp add: cut_line_def Let_def)

section \<open>What a command leaves alone\<close>

lemma sendExitCode_frame [simp]: "conn (sendExitCode S) = conn S" "store (sendExitCode S) = store S"
  by (simp_all add: sendExitCode_def send_msg_def)

definition same_link :: "session \<Rightarrow> session \<Rightarrow> bool" where
  "same_link S S' \<longleftrightarrow> m_Fd (conn S') = m_Fd (conn S) \<and> m_Buf (conn S') = m_Buf (conn S) \<and>
     m_peer (conn S') = m_peer (conn S)"

lemma run_command_frame: "run_command E c S = Some (out, S') \<Longrightarrow> same_link S S'"
  by (cases c) (auto simp: same_link_def answers run_exec_def forked_def Let_def split: if_splits prod.splits)

lemma doCommand_frame:
  assumes run: "doCommand E s S = Some (out, S')"
  shows "same_link S S'"
proof (cases "peerUid (m_peer (conn S)) = env_getuid E")
  case True
  with refine_doCommand [OF True, of s] run show ?thesis
    by (cases "parse s") (auto simp: refines_def rejects_def same_link_def [of S S'],
        auto dest!: run_command_frame [OF sym] simp: same_link_def)
next
  case False
  with run show ?thesis by (simp add: doCommand_def same_link_def)
qed

section \<open>The loop over the lines\<close>

lemma next_line_shorter:
  assumes "n = indexOf_char (m_Buf (conn S)) NL" "n \<noteq> -1"
    and "(newbuf, buf) = cut_line (nat (n + 1)) (m_Buf (conn S))"
    and "doCommand E newbuf (set_conn (\<lambda>c. c\<lparr>m_Buf := buf\<rparr>) S) = Some (out, S')"
  shows "length (m_Buf (conn S')) < length (m_Buf (conn S))"
proof -
  note pos = indexOf_char_split [OF assms(1) [symmetric] assms(2)]
  then have "buf = drop (nat (n + 1)) (m_Buf (conn S))" using assms(3) by (simp add: cut_line)
  moreover have "m_Buf (conn S') = buf" using doCommand_frame [OF assms(4)] by (simp add: same_link_def)
  ultimately show ?thesis using pos by simp
qed

text \<open>The environment of the \<open>i\<close>-th command of a call is \<open>E i\<close>.\<close>

function lines_loop :: "(nat \<Rightarrow> cmd_env) \<Rightarrow> session \<Rightarrow> (outcome \<times> session) option" where
  "lines_loop E S =
     (let n = indexOf_char (m_Buf (conn S)) NL in
      if n = -1 then Some (Return 0, S)
      else
        let (newbuf, buf) = cut_line (nat (n + 1)) (m_Buf (conn S)) in
        (case doCommand (E 0) newbuf (set_conn (\<lambda>c. c\<lparr>m_Buf := buf\<rparr>) S) of
           None \<Rightarrow> None
         | Some (Return ret, S) \<Rightarrow> if ret < 0 then Some (Return ret, S) else lines_loop (\<lambda>i. E (Suc i)) S
         | Some (out, S) \<Rightarrow> Some (out, S)))"
  by pat_completeness auto

termination
  by (relation "measure (\<lambda>(E, S). length (m_Buf (conn S)))") (auto intro: next_line_shorter)

declare lines_loop.simps [simp del]

definition handle :: "(nat \<Rightarrow> recv_result) \<Rightarrow> (nat \<Rightarrow> cmd_env) \<Rightarrow> session \<Rightarrow> (outcome \<times> session) option" where
  "handle recv E S =
     (case recv (BUF_SIZE - 1 - length (m_Buf (conn S))) of
        RecvEINTR \<Rightarrow> Some (Return 0, S)
      | RecvError \<Rightarrow> Some (Return (-1), S)
      | RecvEOF \<Rightarrow> Some (Return (-1), S)
      | Received d \<Rightarrow>
          (let S = set_conn (\<lambda>c. c\<lparr>m_Buf := m_Buf c @ d\<rparr>) S in
           if length (m_Buf (conn S)) = BUF_SIZE - 1 then Some (Return (-1), S)
           else lines_loop E S))"

section \<open>The invariant of a session\<close>

text \<open>
  The repository is well formed, and whoever has a password has its timeout: \<^verbatim>\<open>m_Timeout\<close>
  is not initialised by the constructor.
\<close>

definition session_inv :: "session \<Rightarrow> bool" where
  "session_inv S \<longleftrightarrow> repo_inv (store S) \<and> (m_Pass (conn S) \<noteq> None \<longrightarrow> m_Timeout (conn S) \<noteq> None)"

lemma makeKey_nonempty [simp]: "makeKey ns a b c \<noteq> []"
  by (simp add: makeKey_def)

lemma store_pass_inv: "repo_inv r \<Longrightarrow> repo_inv (store_pass E h a c chk p t r)"
  by (simp add: store_pass_def Let_def add_inv)

lemma removeGroup_inv: "repo_inv r \<Longrightarrow> repo_inv (snd (removeGroup g r))"
  by (rule removeGroup_spec(3))

lemma removeSpecialKey_inv: "repo_inv r \<Longrightarrow> repo_inv (snd (removeSpecialKey k r))"
  by (rule removeSpecialKey_spec(3))

lemma result_inv:
  "remove k r = (ret, r') \<Longrightarrow> repo_inv r \<Longrightarrow> repo_inv r'"
  "removeGroup k r = (ret, r') \<Longrightarrow> repo_inv r \<Longrightarrow> repo_inv r'"
  "removeSpecialKey k r = (ret, r') \<Longrightarrow> repo_inv r \<Longrightarrow> repo_inv r'"
  using remove_inv [of r k] removeGroup_inv [of r k] removeSpecialKey_inv [of r k] by simp_all

lemma run_command_inv:
  assumes "session_inv S"
  obtains out S' where "run_command E c S = Some (out, S')" "session_inv S'"
    "out \<noteq> Return (-1) \<and> (\<forall>ret. out = Return ret \<longrightarrow> ret = 0)"
proof -
  have inv: "repo_inv (store S)" using assms by (simp add: session_inv_def)
  have "\<exists>out S'. run_command E c S = Some (out, S') \<and> session_inv S' \<and> (\<forall>ret. out = Return ret \<longrightarrow> ret = 0)"
    using assms add_inv [OF inv] store_pass_inv [OF inv]
    by (cases c) (auto simp: session_inv_def answers var_key_def run_exec_def forked_def sendExitCode_def Let_def
        split: prod.splits dest: result_inv)
  then show ?thesis using that by fastforce
qed

theorem doCommand_inv:
  assumes "session_inv S"
  obtains out S' where "doCommand E s S = Some (out, S')" "repo_inv (store S')"
    "out \<noteq> Return (-1) \<Longrightarrow> session_inv S'" "\<And>ret. out = Return ret \<Longrightarrow> ret = 0 \<or> ret = -1"
proof (cases "peerUid (m_peer (conn S)) = env_getuid E")
  case False
  then show ?thesis using assms that by (auto simp: doCommand_def session_inv_def)
next
  case True
  show ?thesis
  proof (cases "parse s")
    case None
    with refine_doCommand [OF True, of s] assms that show ?thesis
      by (auto simp: refines_def rejects_def session_inv_def)
  next
    case (Some c)
    with refine_doCommand [OF True, of s] have "doCommand E s S = run_command E c S"
      by (simp add: refines_def)
    then show ?thesis using run_command_inv [OF assms, of E c] that
      by (metis session_inv_def)
  qed
qed

section \<open>Commands do not see the buffer\<close>

definition with_buf :: "bytes \<Rightarrow> session \<Rightarrow> session" where
  "with_buf b S = set_conn (\<lambda>c. c\<lparr>m_Buf := b\<rparr>) S"

definition rebuf :: "bytes \<Rightarrow> (outcome \<times> session) option \<Rightarrow> (outcome \<times> session) option" where
  "rebuf b x = map_option (map_prod id (with_buf b)) x"

lemma rebuf_simps [simp]:
  "rebuf b None = None" "rebuf b (Some (out, S)) = Some (out, with_buf b S)"
  by (simp_all add: rebuf_def)

lemma rebuf_bind:
  "(\<And>t l'. f (t, l') = rebuf b (g (t, l'))) \<Longrightarrow> Option.bind m f = rebuf b (Option.bind m g)"
  by (cases m) auto

lemma with_buf_simps [simp]:
  "store (with_buf b S) = store S" "sent (with_buf b S) = sent S"
  "m_Host (conn (with_buf b S)) = m_Host (conn S)" "m_Pass (conn (with_buf b S)) = m_Pass (conn S)"
  "m_Timeout (conn (with_buf b S)) = m_Timeout (conn S)" "m_peer (conn (with_buf b S)) = m_peer (conn S)"
  "m_hasExitCode (conn (with_buf b S)) = m_hasExitCode (conn S)" "m_Buf (conn (with_buf b S)) = b"
  "m_Fd (conn (with_buf b S)) = m_Fd (conn S)"
  "with_buf b (with_buf b' S) = with_buf b S" "with_buf (m_Buf (conn S)) S = S"
  by (simp_all add: with_buf_def)

lemmas commands = cmd_pass_def cmd_host_def cmd_prio_def cmd_sched_def cmd_delCmd_def cmd_delVar_def
  cmd_delGroup_def cmd_delSpecialKey_def cmd_set_def cmd_get_def cmd_getKeys_def cmd_chkGroup_def
  cmd_ping_def cmd_exit_def cmd_stop_def

lemma exec_rebuf [simp]:
  "auth_user (conn (with_buf b S)) u = auth_user (conn S) u"
  "exec_job (conn (with_buf b S)) c u opts env pass = exec_job (conn S) c u opts env pass"
  "with_buf b S\<lparr>store := r\<rparr> = with_buf b (S\<lparr>store := r\<rparr>)"
  "exec_fork E job (with_buf b S) = rebuf b (exec_fork E job S)"
  "parse_error (with_buf b S) = rebuf b (parse_error S)"
  "finished (respond ok s (with_buf b S)) = rebuf b (finished (respond ok s S))"
  by (simp_all add: auth_user_def exec_job_def exec_fork_def respond_def send_msg_def with_buf_def rebuf_def
      parse_error_def finished_def)

lemma cmd_exec_rebuf: "cmd_exec E l (with_buf b S) = rebuf b (cmd_exec E l S)"
  by (simp add: cmd_exec_def Let_def split: Option.bind_split option.split prod.split)

lemma dispatch_rebuf: "dispatch E t l (with_buf b S) = rebuf b (dispatch E t l S)"
proof (cases "t = Tok_exec")
  case True
  then show ?thesis by (simp add: dispatch_def cmd_exec_rebuf)
next
  case False
  then show ?thesis
    by (cases t) (simp_all add: dispatch_def commands parse_error_def finished_def
        respond_def send_msg_def sendExitCode_def with_buf_def rebuf_def Let_def
        split: Option.bind_split option.split prod.split)
qed

lemma doCommand_rebuf: "doCommand E s (with_buf b S) = rebuf b (doCommand E s S)"
  by (auto simp: doCommand_def dispatch_rebuf intro!: rebuf_bind)

section \<open>The lines of a stream\<close>

lemma lines_loop_idle: "NL \<notin> set (m_Buf (conn S)) \<Longrightarrow> lines_loop E S = Some (Return 0, S)"
  by (simp add: lines_loop.simps [of E S])

lemma lines_loop_line:
  assumes "m_Buf (conn S) = l @ NL # r" "NL \<notin> set l"
  shows "lines_loop E S = (case doCommand (E 0) (l @ [NL]) (with_buf r S) of
     None \<Rightarrow> None
   | Some (Return ret, S) \<Rightarrow> if ret < 0 then Some (Return ret, S) else lines_loop (\<lambda>i. E (Suc i)) S
   | Some (out, S) \<Rightarrow> Some (out, S))"
  using assms indexOf_char_first [of NL l r]
  by (simp add: lines_loop.simps [of E S] cut_line with_buf_def Let_def nat_add_distrib)

text \<open>The bytes behind the last newline.\<close>

definition unfinished :: "bytes \<Rightarrow> bytes" where
  "unfinished s = rev (takeWhile (\<lambda>c. c \<noteq> NL) (rev s))"

lemma unfinished_idle [simp]: "NL \<notin> set s \<Longrightarrow> unfinished s = s"
  by (subst unfinished_def, subst takeWhile_eq_all_conv [THEN iffD2]) auto

lemma unfinished_line [simp]: "unfinished (l @ NL # r) = unfinished r"
  by (cases "NL \<in> set r") (simp_all add: unfinished_def takeWhile_tail)

lemma NL_unfinished [simp]: "NL \<notin> set (unfinished s)"
  by (auto simp: unfinished_def dest: set_takeWhileD)

text \<open>Induction over the lines of a buffer.\<close>

lemma line_induct [case_names idle line]:
  assumes "\<And>s E. NL \<notin> set s \<Longrightarrow> P s E"
    and "\<And>l r E. NL \<notin> set l \<Longrightarrow> (\<And>E'. P r E') \<Longrightarrow> P (l @ NL # r) E"
  shows "P s E"
proof (induction "length s" arbitrary: s E rule: less_induct)
  case less
  show ?case
  proof (cases "NL \<in> set s")
    case False
    then show ?thesis by (rule assms(1))
  next
    case True
    then obtain l r where s: "s = l @ NL # r" "NL \<notin> set l" by (metis split_list_first)
    have "P r E'" for E' using less [of r E'] s by simp
    then show ?thesis using assms(2) s by blast
  qed
qed

definition good_end :: "session \<Rightarrow> (outcome \<times> session) option \<Rightarrow> bytes \<Rightarrow> bool" where
  "good_end S x s \<longleftrightarrow> (\<exists>out S'. x = Some (out, S') \<and> repo_inv (store S') \<and>
     m_Fd (conn S') = m_Fd (conn S) \<and> m_peer (conn S') = m_peer (conn S) \<and>
     (\<forall>ret. out = Return ret \<longrightarrow> ret = 0 \<or> ret = -1) \<and>
     (out = Return 0 \<longrightarrow> session_inv S' \<and> m_Buf (conn S') = s))"

lemma lines_loop_good:
  "session_inv S \<Longrightarrow> m_Buf (conn S) = s \<Longrightarrow> good_end S (lines_loop E S) (unfinished s)"
proof (induction s E arbitrary: S rule: line_induct)
  case (idle s E)
  then show ?case by (simp add: lines_loop_idle good_end_def session_inv_def)
next
  case (line l r E)
  have inv: "session_inv (with_buf r S)" using line.prems(1) by (simp add: session_inv_def)
  obtain out S' where run: "doCommand (E 0) (l @ [NL]) (with_buf r S) = Some (out, S')" "repo_inv (store S')"
    "out \<noteq> Return (-1) \<Longrightarrow> session_inv S'" "\<And>ret. out = Return ret \<Longrightarrow> ret = 0 \<or> ret = -1"
    using doCommand_inv [OF inv] by metis
  have link: "same_link (with_buf r S) S'" using run(1) by (rule doCommand_frame)
  show ?case
  proof (cases "out = Return 0")
    case True
    with run line.IH [of S' "\<lambda>i. E (Suc i)"] link line show ?thesis
      by (simp add: lines_loop_line good_end_def same_link_def)
  next
    case False
    with run link line show ?thesis
      by (cases out) (auto simp: lines_loop_line good_end_def same_link_def)
  qed
qed

lemma lines_loop_chunks:
  assumes "lines_loop E (with_buf b1 S) = Some (Return 0, S1)"
  shows "lines_loop E (with_buf (b1 @ b2) S) =
    lines_loop (\<lambda>i. E (i + count_list b1 NL)) (with_buf (m_Buf (conn S1) @ b2) S1)"
  using assms
proof (induction b1 E arbitrary: S rule: line_induct)
  case (idle s E)
  then have "S1 = with_buf s S" by (simp add: lines_loop_idle)
  then show ?case using idle by simp
next
  case (line l r E)
  obtain out S' where run: "doCommand (E 0) (l @ [NL]) S = Some (out, S')"
    "doCommand (E 0) (l @ [NL]) (with_buf r S) = Some (out, with_buf r S')"
    using line by (cases "doCommand (E 0) (l @ [NL]) S") (auto simp: lines_loop_line doCommand_rebuf)
  from line run obtain ret where out: "out = Return ret" "\<not> ret < 0"
    "lines_loop (\<lambda>i. E (Suc i)) (with_buf r S') = Some (Return 0, S1)"
    by (auto simp: lines_loop_line split: outcome.splits if_splits)
  have "lines_loop E (with_buf ((l @ NL # r) @ b2) S) = lines_loop (\<lambda>i. E (Suc i)) (with_buf (r @ b2) S')"
    using run line out lines_loop_line [of "with_buf (l @ NL # r @ b2) S" l "r @ b2" E]
    by (simp add: doCommand_rebuf)
  then show ?case using line.IH [OF out(3)] line.hyps by simp
qed

section \<open>A call of handle\<close>

text \<open>Between two calls a line is unfinished and there is room for at least one byte.\<close>

definition link_inv :: "session \<Rightarrow> bool" where
  "link_inv S \<longleftrightarrow> session_inv S \<and> NL \<notin> set (m_Buf (conn S)) \<and> length (m_Buf (conn S)) < BUF_SIZE - 1"

lemma length_unfinished: "length (unfinished s) \<le> length s"
  unfolding unfinished_def using length_takeWhile_le [of "\<lambda>c. c \<noteq> NL" "rev s"] by simp

lemma handle_good:
  assumes "link_inv S" "recv_ok recv"
  obtains out S' where "handle recv E S = Some (out, S')" "repo_inv (store S')"
    "out = Return 0 \<Longrightarrow> link_inv S'" "\<And>ret. out = Return ret \<Longrightarrow> ret = 0 \<or> ret = -1"
    "m_Fd (conn S') = m_Fd (conn S)" "m_peer (conn S') = m_peer (conn S)"
proof (cases "recv (BUF_SIZE - 1 - length (m_Buf (conn S)))")
  case (Received d)
  let ?b = "m_Buf (conn S) @ d"
  have len: "length ?b \<le> BUF_SIZE - 1" and inv: "session_inv (with_buf ?b S)" "session_inv S"
    using assms Received by (force simp: recv_ok_def link_inv_def session_inv_def)+
  show ?thesis
  proof (cases "length ?b = BUF_SIZE - 1")
    case True
    then show ?thesis using that [of "Return (-1)"] Received inv
      by (simp add: handle_def Let_def session_inv_def)
  next
    case False
    then have h: "handle recv E S = lines_loop E (with_buf ?b S)"
      using Received by (simp add: handle_def with_buf_def Let_def)
    obtain out S' where "lines_loop E (with_buf ?b S) = Some (out, S')" "repo_inv (store S')"
      "m_Fd (conn S') = m_Fd (conn S)" "m_peer (conn S') = m_peer (conn S)"
      "\<forall>ret. out = Return ret \<longrightarrow> ret = 0 \<or> ret = -1"
      "out = Return 0 \<longrightarrow> session_inv S' \<and> m_Buf (conn S') = unfinished ?b"
      using lines_loop_good [OF inv(1), of ?b E] by (auto simp: good_end_def)
    with h show ?thesis
      using that [of out S'] False len length_unfinished [of ?b] by (auto simp: link_inv_def)
  qed
qed (use assms that in \<open>auto simp: handle_def link_inv_def session_inv_def\<close>)

lemma handle_ex:
  assumes "link_inv S" "recv_ok recv"
  shows "\<exists>out S'. handle recv E S = Some (out, S') \<and> repo_inv (store S') \<and>
    (out = Return 0 \<longrightarrow> link_inv S') \<and> (\<forall>ret. out = Return ret \<longrightarrow> ret = 0 \<or> ret = -1) \<and>
    m_Fd (conn S') = m_Fd (conn S) \<and> m_peer (conn S') = m_peer (conn S)"
  using handle_good [OF assms, of E] by metis

text \<open>Two reads or one: the same commands run in the same order.\<close>

lemma handle_lines:
  "d \<noteq> [] \<Longrightarrow> length (m_Buf (conn S)) + length d < BUF_SIZE - 1 \<Longrightarrow>
     handle (recv_of d) E S = lines_loop E (with_buf (m_Buf (conn S) @ d) S)"
  by (simp add: handle_def recv_of_all with_buf_def Let_def)

lemma handle_chunks:
  assumes "link_inv S" "d1 \<noteq> []" "d2 \<noteq> []" "length (m_Buf (conn S)) + length d1 + length d2 < BUF_SIZE - 1"
    and "handle (recv_of d1) E S = Some (Return 0, S1)"
  shows "handle (recv_of (d1 @ d2)) E S =
    handle (recv_of d2) (\<lambda>i. E (i + count_list (m_Buf (conn S) @ d1) NL)) S1"
proof -
  let ?b = "m_Buf (conn S) @ d1"
  have l: "lines_loop E (with_buf ?b S) = Some (Return 0, S1)"
    using assms by (simp add: handle_lines)
  have "session_inv (with_buf ?b S)" using assms(1) by (simp add: link_inv_def session_inv_def)
  from lines_loop_good [OF this, of ?b E] l length_unfinished [of ?b]
  have "length (m_Buf (conn S1)) \<le> length ?b" by (simp add: good_end_def)
  then show ?thesis
    using lines_loop_chunks [OF l, of d2] assms by (simp add: handle_lines)
qed

end
