(* ===== verification/Secrecy.thy ===== *)
theory Secrecy
  imports Handle
begin

text \<open>
  Keeping the passwords apart from the variables. The keys of the repository start with the
  number of their namespace: 0 for passwords, 1 for variables, 2 for the environments the
  passwords are good for. \<open>vault_inv\<close> says that only variables have a group; it holds for
  every session of the daemon. From it follows that the queries of the protocol (GET, GETK,
  CHKG) depend on the variables only. The lemmas are on \<open>entries_ok P\<close>, which has every entry
  satisfy \<open>P\<close> and is kept by what the handler does to the repository.
\<close>

definition is_var_key :: "bytes \<Rightarrow> bool" where
  "is_var_key k \<longleftrightarrow> prefix ''1*'' k"

definition vault_inv :: "repository \<Rightarrow> bool" where
  "vault_inv r \<longleftrightarrow> repo_inv r \<and> list_all (\<lambda>e. is_var_key (fst e) \<or> entry_group (snd e) = []) (repo r)"

definition variables :: "repository \<Rightarrow> repository" where
  "variables r = \<lparr>repo = filter (\<lambda>e. is_var_key (fst e)) (repo r), head_time = 0\<rparr>"

section \<open>Keys\<close>

lemma setNum_small: "setNum 0 = ''0''" "setNum 1 = ''1''" "setNum 2 = ''2''"
  by code_simp+

lemma is_var_key_makeKey [simp]:
  "is_var_key (makeKey 1 a b c)" "\<not> is_var_key (makeKey 0 a b c)" "\<not> is_var_key (makeKey 2 a b c)"
  by (simp_all add: is_var_key_def makeKey_def setNum_small)

lemma setNum_no_star: "CHR ''*'' \<notin> set (setNum n)"
proof -
  have "\<not> isdigit (CHR ''*'')" by (simp add: ctype)
  then show ?thesis using dec_nat_digits by (auto simp: setNum_def)
qed

lemma setNum_inject: "in_int m \<Longrightarrow> in_int n \<Longrightarrow> setNum m = setNum n \<longleftrightarrow> m = n"
  by (metis toInt_setNum)

section \<open>The invariant\<close>

lemma set_repo_add:
  assumes "repo_inv r" "e \<in> set (repo (fst (add k d now r)))"
  shows "e = (k, d\<lparr>entry_timeout := absolute_timeout now (entry_timeout d)\<rparr>) \<or> e \<in> set (repo r)"
proof -
  have inv: "qmap_invar (repo r)" "qmap_invar (qmap_erase k (repo r))"
    using repo_inv_map [OF assms(1)] by (auto simp: qmap_erase_def qmap_invar_filter)
  show ?thesis
    using assms(2) set_qmap_insert [OF inv(1)] set_qmap_insert [OF inv(2)]
    by (auto simp: add_def Let_def repo_remove qmap_erase_def split: if_splits)
qed

text \<open>A condition on every entry is kept by what only removes entries.\<close>

definition entries_ok :: "(bytes \<times> data_entry \<Rightarrow> bool) \<Rightarrow> repository \<Rightarrow> bool" where
  "entries_ok P r \<longleftrightarrow> repo_inv r \<and> list_all P (repo r)"

lemma entries_add:
  assumes "entries_ok P r" "k \<noteq> []" "P (k, d\<lparr>entry_timeout := absolute_timeout now (entry_timeout d)\<rparr>)"
  shows "entries_ok P (fst (add k d now r))"
  using assms add_inv [of r k d now] set_repo_add [of r _ k d now]
  by (force simp: entries_ok_def list_all_iff)

lemma entries_filter: "entries_ok P r \<Longrightarrow> repo_inv r' \<Longrightarrow> repo r' = filter Q (repo r) \<Longrightarrow> entries_ok P r'"
  by (auto simp: entries_ok_def list_all_iff)

lemma entries_remove: "entries_ok P r \<Longrightarrow> entries_ok P (snd (remove k r))"
proof -
  assume r: "entries_ok P r"
  have "repo (snd (remove k r)) = filter (\<lambda>e. k = [] \<or> fst e \<noteq> k) (repo r)"
    by (simp add: repo_remove qmap_erase_def)
  moreover have "repo_inv (snd (remove k r))" using r by (simp add: entries_ok_def remove_inv)
  ultimately show ?thesis using entries_filter [OF r] by blast
qed

lemma entries_expire: "entries_ok P r \<Longrightarrow> entries_ok P (snd (expire now r))"
  by (auto simp: entries_ok_def expire_spec(1,3) list_all_iff)

lemma entries_groups:
  assumes "entries_ok P r"
  shows "entries_ok P (snd (removeGroup k r))" and "entries_ok P (snd (removeSpecialKey k r))"
proof -
  have inv: "repo_inv r" using assms by (simp add: entries_ok_def)
  show "entries_ok P (snd (removeGroup k r))" by (rule entries_filter [OF assms removeGroup_spec(3,1) [OF inv]])
  show "entries_ok P (snd (removeSpecialKey k r))" by (rule entries_filter [OF assms removeSpecialKey_spec(3,1) [OF inv]])
qed

lemma entries_result:
  "remove k r = (ret, r') \<Longrightarrow> entries_ok P r \<Longrightarrow> entries_ok P r'"
  "removeGroup k r = (ret, r') \<Longrightarrow> entries_ok P r \<Longrightarrow> entries_ok P r'"
  "removeSpecialKey k r = (ret, r') \<Longrightarrow> entries_ok P r \<Longrightarrow> entries_ok P r'"
  using entries_remove [of P r k] entries_groups [of P r k] by simp_all

text \<open>What a command writes: a password, with the environment it is good for, or a variable.\<close>

lemma entries_store_pass:
  assumes "entries_ok P r" "\<And>t. P (makeKey 2 h a c, \<lparr>entry_value = chk, entry_group = [], entry_timeout = t\<rparr>)"
    and "\<And>t. P (makeKey 0 h a c, \<lparr>entry_value = p, entry_group = [], entry_timeout = t\<rparr>)"
  shows "entries_ok P (store_pass E h a c chk p t r)"
  using assms by (simp add: store_pass_def Let_def entries_add)

lemma entries_run:
  assumes "run_command E q S = Some (out, S')" "entries_ok P (store S)"
    and "\<And>n v g t. P (var_key n, \<lparr>entry_value = Some v, entry_group = g, entry_timeout = t\<rparr>)"
    and "\<And>h a c chk t. P (makeKey 2 h a c, \<lparr>entry_value = chk, entry_group = [], entry_timeout = t\<rparr>)"
    and "\<And>h a c t. P (makeKey 0 h a c, \<lparr>entry_value = m_Pass (conn S), entry_group = [], entry_timeout = t\<rparr>)"
  shows "entries_ok P (store S')"
  using assms by (cases q) (auto simp: answers run_exec_def forked_def sendExitCode_def Let_def entries_add
      entries_store_pass split: prod.splits if_splits dest: entries_result)

lemma vault_entries:
  "vault_inv r \<longleftrightarrow> entries_ok (\<lambda>e. is_var_key (fst e) \<or> entry_group (snd e) = []) r"
  by (simp add: vault_inv_def entries_ok_def)

lemma vault_expire: "vault_inv r \<Longrightarrow> vault_inv (snd (expire now r))"
  by (simp add: vault_entries entries_expire)

lemma vault_store_pass: "vault_inv r \<Longrightarrow> vault_inv (store_pass E h a c chk p t r)"
  by (simp add: vault_entries entries_store_pass)

lemma vault_run: "run_command E c S = Some (out, S') \<Longrightarrow> vault_inv (store S) \<Longrightarrow> vault_inv (store S')"
  unfolding vault_entries by (rule entries_run) (simp_all add: var_key_def)

lemma vault_doCommand:
  assumes "doCommand E s S = Some (out, S')" "vault_inv (store S)"
  shows "vault_inv (store S')"
proof (cases "peerUid (m_peer (conn S)) = env_getuid E")
  case True
  with refine_doCommand [OF True, of s] assms show ?thesis
    by (cases "parse s") (auto simp: refines_def rejects_def dest!: vault_run [OF sym])
qed (use assms in \<open>auto simp: doCommand_def\<close>)

section \<open>Queries see the variables only\<close>

lemma map_of_filter_key: "P k \<Longrightarrow> map_of (filter (\<lambda>e. P (fst e)) m) k = map_of m k"
  by (induction m) auto

lemma find_variables: "find (makeKey 1 a b c) r = find (makeKey 1 a b c) (variables r)"
  by (simp add: find_def qmap_find_def variables_def map_of_filter_key [of is_var_key])

lemma findKeys_loop_filter: "findKeys_loop g sep list es = findKeys_loop g sep list (filter (in_group g) es)"
  by (induction g sep list es rule: findKeys_loop.induct) (simp_all add: Let_def)

lemma group_variables:
  assumes "vault_inv r" "g \<noteq> []"
  shows "filter (in_group g) (repo r) = filter (in_group g) (repo (variables r))"
  using assms by (auto simp: vault_inv_def variables_def in_group_def list_all_iff intro!: filter_cong)

lemma findKeys_variables: "vault_inv r \<Longrightarrow> findKeys g sep r = findKeys g sep (variables r)"
  using group_variables [of r g] findKeys_loop_filter [of g sep "[]"]
  by (cases "g = []") (simp_all add: findKeys_def, metis)

lemma hasGroup_variables: "vault_inv r \<Longrightarrow> hasGroup g r = hasGroup g (variables r)"
proof (cases "g = []")
  case False
  assume "vault_inv r"
  from group_variables [OF this False] have
    "list_ex (in_group g) (repo r) \<longleftrightarrow> list_ex (in_group g) (repo (variables r))"
    by (metis filter_empty_conv list_ex_iff)
  then show ?thesis by (simp add: hasGroup_def)
qed (simp add: hasGroup_def)

text \<open>Replacing the store of a session by another with the same variables.\<close>

lemma query_variables:
  assumes "vault_inv (store S)" "vault_inv r" "variables r = variables (store S)"
    and "c = C_get k \<or> c = C_getk k \<or> c = C_chkg k"
  shows "run_command E c (S\<lparr>store := r\<rparr>) = map_option (map_prod id (\<lambda>S'. S'\<lparr>store := r\<rparr>)) (run_command E c S)"
proof -
  have f: "find (var_key k) r = find (var_key k) (store S)"
    unfolding var_key_def by (subst (1 2) find_variables) (simp add: assms(3))
  have g: "findKeys k sep r = findKeys k sep (store S)" for sep
    using assms(1-3) by (subst (1 2) findKeys_variables) simp_all
  have h: "hasGroup k r = hasGroup k (store S)"
    using assms(1-3) by (subst (1 2) hasGroup_variables) simp_all
  show ?thesis using assms(4) f g h by (auto simp: answers)
qed

text \<open>The name under which a variable is listed.\<close>

lemma key_name_makeKey:
  assumes "CHR ''-'' \<notin> set s"
  shows "key_name ''-'' (makeKey 1 (n @ ''-'' @ s) [] []) = n"
proof -
  let ?q = "s @ ''**''"
  have key: "makeKey 1 (n @ ''-'' @ s) [] [] = (''1*'' @ n) @ CHR ''-'' # ?q"
    by (simp add: makeKey_def setNum_small)
  have "CHR ''-'' \<notin> set ?q" using assms by simp
  from lastIndexOf_char [OF this, of "''1*'' @ n"]
  have "lastIndexOf (makeKey 1 (n @ ''-'' @ s) [] []) ''-'' = int (length (''1*'' @ n))" unfolding key .
  then have "qtruncate (makeKey 1 (n @ ''-'' @ s) [] []) (lastIndexOf (makeKey 1 (n @ ''-'' @ s) [] []) ''-'') = ''1*'' @ n"
    unfolding qtruncate_def key by (simp del: append_Cons)
  then show ?thesis by (simp add: key_name_def remove_front_def)
qed

section \<open>The life of a password\<close>

lemma makeKey_eq_ns: "in_int m \<Longrightarrow> in_int n \<Longrightarrow> makeKey m a b c = makeKey n a' b' c' \<Longrightarrow> m = n"
  using append_stop_eq [OF setNum_no_star setNum_no_star, of m "a @ ''*'' @ b @ ''*'' @ c" n "a' @ ''*'' @ b' @ ''*'' @ c'"]
    setNum_inject [of m n] by (simp add: makeKey_def)

text \<open>
  Within a namespace, keys are different for different host, user and command, provided the
  first two hold no asterisk.
\<close>

lemma makeKey_separates:
  assumes "in_int m" and "in_int n" and "makeKey m a b c = makeKey n a' b' c'"
  shows "m = n \<and>
    (CHR ''*'' \<notin> set (a @ a' @ b @ b') \<longrightarrow> a = a' \<and> b = b' \<and> c = c')"
proof -
  have mn: "m = n" by (rule makeKey_eq_ns [OF assms])
  then have "a @ CHR ''*'' # b @ ''*'' @ c = a' @ CHR ''*'' # b' @ ''*'' @ c'"
    using assms(3) by (simp add: makeKey_def)
  then show ?thesis using mn by (auto simp: append_stop_eq)
qed

lemma makeKey_0_2 [simp]: "makeKey 0 a b c \<noteq> makeKey 2 a' b' c'" "makeKey 2 a b c \<noteq> makeKey 0 a' b' c'"
  using makeKey_eq_ns [of 0 2] makeKey_eq_ns [of 2 0] by (auto simp: in_int_def int_max_def)

lemma makeKey_1 [simp]: "makeKey 1 a b c \<noteq> makeKey 0 a' b' c'" "makeKey 1 a b c \<noteq> makeKey 2 a' b' c'"
  by (metis is_var_key_makeKey)+

lemma repo_map_store_pass:
  assumes "repo_inv r"
  shows "repo_map (store_pass E h a c chk p t r) =
    (repo_map r)(makeKey 2 h a c \<mapsto> \<lparr>entry_value = chk, entry_group = [],
        entry_timeout = absolute_timeout (env_time1 E) (word_of_int t)\<rparr>,
      makeKey 0 h a c \<mapsto> \<lparr>entry_value = p, entry_group = [],
        entry_timeout = absolute_timeout (env_time2 E) (word_of_int t)\<rparr>)"
  using assms by (simp add: store_pass_def Let_def repo_add add_inv)

lemma stored_pass_store_pass:
  "repo_inv r \<Longrightarrow> stored_pass (store_pass E h a c chk p t r) h a c chk = p"
  by (simp add: stored_pass_def find_repo_map repo_map_store_pass qeq_def)

lemma stored_pass_expired:
  assumes "repo_inv r"
  shows "stored_pass (snd (expire now (store_pass E h a c chk p t r))) h a c chk =
    (if unsigned_time now < absolute_timeout (env_time2 E) (word_of_int t) \<and>
        (unsigned_time now < absolute_timeout (env_time1 E) (word_of_int t) \<or> bytes_of chk = [])
     then p else None)"
  using assms store_pass_inv [OF assms]
  by (auto simp: stored_pass_def find_repo_map expire_map repo_map_store_pass qeq_def)

end
