(* ===== verification/Daemon.thy ===== *)
theory Daemon
  imports Secrecy
begin

text \<open>
  The main loop of the daemon, \<^verbatim>\<open>main()\<close> of \<^verbatim>\<open>src/src/kdesud/kdesud.cpp\<close> from the
  \<^verbatim>\<open>select\<close> on: expiring, reaping children, accepting and serving connections, and closing
  the ones that fail. \<open>daemon\<close> holds the variables of \<^verbatim>\<open>main()\<close> that live over the loop
  and the global repository; \<open>round_env\<close> is what the system answers in one round.

  \<^const>\<open>None\<close> is undefined behaviour, as in the handler; here also an index outside the list
  of handlers. The lemmas show the invariant of the loop and when a round is safe.
\<close>

section \<open>State\<close>

record daemon =
  handlers :: "connection option list"
  d_repo :: repository
  active_fds :: "nat set"
  maxfd :: nat
  d_sockfd :: nat
  pipe_fd :: nat
  x11_fd :: "nat option"
  sent_to :: "(nat \<times> bytes) list"
  closed_fds :: "int list"

datatype select_result = Select_EINTR | Select_error | Ready "nat set"

text \<open>
  \<open>r_wait\<close> lists the results of \<^verbatim>\<open>waitpid\<close>, process number and status, until it has no
  more; \<open>r_accept\<close> is the descriptor \<^verbatim>\<open>accept\<close> returns, given those in use; \<open>r_recv\<close> and
  \<open>r_cmd\<close> are what serving a connection meets.
\<close>

record round_env =
  r_select :: select_result
  r_now :: "64 word"
  r_wait :: "(int \<times> int) list"
  r_accept :: "nat set \<Rightarrow> int"
  r_peer :: socket_security
  r_recv :: "nat \<Rightarrow> nat \<Rightarrow> recv_result"
  r_cmd :: "nat \<Rightarrow> nat \<Rightarrow> cmd_env"

text \<open>A forked child has a copy of everything the daemon has.\<close>

datatype round_result = Running daemon | Stopped int daemon | In_child child_job daemon

definition start_daemon :: "nat \<Rightarrow> nat \<Rightarrow> nat option \<Rightarrow> daemon" where
  "start_daemon sfd pipe x11 =
     \<lparr>handlers = [], d_repo = new_repository,
      active_fds = {sfd, pipe} \<union> (case x11 of None \<Rightarrow> {} | Some f \<Rightarrow> {f}),
      maxfd = max (max sfd (case x11 of None \<Rightarrow> 0 | Some f \<Rightarrow> f)) pipe,
      d_sockfd = sfd, pipe_fd = pipe, x11_fd = x11, sent_to = [], closed_fds = []\<rparr>"

section \<open>Children\<close>

text \<open>A connection of the daemon as a session, and back.\<close>

definition session_of :: "connection \<Rightarrow> daemon \<Rightarrow> session" where
  "session_of c D = \<lparr>conn = c, store = d_repo D, sent = []\<rparr>"

definition put_session :: "nat \<Rightarrow> session \<Rightarrow> daemon \<Rightarrow> daemon" where
  "put_session i S D = D\<lparr>handlers := (handlers D)[i := Some (conn S)], d_repo := store S,
     sent_to := sent_to D @ map (Pair i) (sent S)\<rparr>"

definition child_exited :: "int \<Rightarrow> session \<Rightarrow> session" where
  "child_exited status S =
     (let S = set_conn (\<lambda>c. c\<lparr>m_exitCode := WEXITSTATUS status\<rparr>) S;
          S = set_conn (\<lambda>c. c\<lparr>m_hasExitCode := True\<rparr>) S;
          S = sendExitCode S
      in set_conn (\<lambda>c. c\<lparr>m_pid := 0\<rparr>) S)"

fun deliver :: "nat \<Rightarrow> int \<Rightarrow> int \<Rightarrow> daemon \<Rightarrow> daemon" where
  "deliver 0 result status D = D"
| "deliver (Suc j) result status D =
     (case handlers D ! j of
        Some c \<Rightarrow>
          if m_pid c = result then put_session j (child_exited status (session_of c D)) D
          else deliver j result status D
      | None \<Rightarrow> deliver j result status D)"

fun reap :: "(int \<times> int) list \<Rightarrow> daemon \<Rightarrow> daemon" where
  "reap [] D = D"
| "reap ((result, status) # ws) D =
     (if result > 0 then reap ws (deliver (length (handlers D)) result status D) else D)"

section \<open>Connections\<close>

text \<open>\<^verbatim>\<open>delete handler[i]\<close>: the destructor erases the buffers and closes the descriptor.\<close>

definition delete_handler :: "nat \<Rightarrow> daemon \<Rightarrow> daemon" where
  "delete_handler i D =
     (case handlers D ! i of
        None \<Rightarrow> D
      | Some c \<Rightarrow> D\<lparr>closed_fds := closed_fds D @ [snd (destroy_connection c)]\<rparr>)"

definition accept_connection :: "round_env \<Rightarrow> daemon \<Rightarrow> daemon" where
  "accept_connection R D =
     (let fd = r_accept R (active_fds D) in
      if fd < 0 then D
      else
        let f = nat fd;
            D = D\<lparr>handlers := handlers D @ replicate (f + 1 - length (handlers D)) None\<rparr>;
            D = delete_handler f D;
            D = D\<lparr>handlers := (handlers D)[f := Some (new_connection fd (r_peer R))]\<rparr>;
            D = D\<lparr>maxfd := max (maxfd D) f\<rparr>
        in D\<lparr>active_fds := insert f (active_fds D)\<rparr>)"

definition drop_connection :: "nat \<Rightarrow> daemon \<Rightarrow> daemon" where
  "drop_connection i D =
     (let D = delete_handler i D;
          D = D\<lparr>handlers := (handlers D)[i := None]\<rparr>
      in D\<lparr>active_fds := active_fds D - {i}\<rparr>)"

definition serve_connection :: "round_env \<Rightarrow> nat \<Rightarrow> daemon \<Rightarrow> round_result option" where
  "serve_connection R i D =
     (if i < length (handlers D) then
        case handlers D ! i of
          None \<Rightarrow> Some (Running D)
        | Some c \<Rightarrow>
            (case handle (r_recv R i) (r_cmd R i) (session_of c D) of
               None \<Rightarrow> None
             | Some (Return ret, S) \<Rightarrow>
                 Some (Running (if ret < 0 then drop_connection i (put_session i S D) else put_session i S D))
             | Some (Exited n, S) \<Rightarrow> Some (Stopped n (put_session i S D))
             | Some (Child job, S) \<Rightarrow> Some (In_child job (put_session i S D)))
      else None)"

section \<open>One round\<close>

text \<open>
  The body of the loop over the descriptors. The branch for the pipe has no
  \<^verbatim>\<open>continue\<close>: it goes on to the tests below it. A descriptor that does not fit into an
  \<^verbatim>\<open>fd_set\<close> is not looked for before \<^verbatim>\<open>FD_SET\<close>, which then writes outside the set.
\<close>

definition FD_SETSIZE :: int where
  "FD_SETSIZE = 1024"

definition visit_fd :: "round_env \<Rightarrow> nat \<Rightarrow> daemon \<Rightarrow> round_result option" where
  "visit_fd R i D =
     (let D = (if i = pipe_fd D then reap (r_wait R) D else D) in
      if x11_fd D = Some i then Some (Running D)
      else if i = d_sockfd D then
        if r_accept R (active_fds D) < FD_SETSIZE then Some (Running (accept_connection R D)) else None
      else serve_connection R i D)"

lemma put_session_frame [simp]:
  "d_sockfd (put_session i S D) = d_sockfd D" "maxfd (put_session i S D) = maxfd D"
  "pipe_fd (put_session i S D) = pipe_fd D" "x11_fd (put_session i S D) = x11_fd D"
  "active_fds (put_session i S D) = active_fds D" "handlers (put_session i S D) = (handlers D)[i := Some (conn S)]"
  "d_repo (put_session i S D) = store S"
  by (simp_all add: put_session_def)

lemma delete_handler_frame [simp]:
  "d_sockfd (delete_handler i D) = d_sockfd D" "maxfd (delete_handler i D) = maxfd D"
  "pipe_fd (delete_handler i D) = pipe_fd D" "x11_fd (delete_handler i D) = x11_fd D"
  "active_fds (delete_handler i D) = active_fds D" "handlers (delete_handler i D) = handlers D"
  "d_repo (delete_handler i D) = d_repo D"
  by (simp_all add: delete_handler_def split: option.split)

lemma drop_connection_frame [simp]:
  "d_sockfd (drop_connection i D) = d_sockfd D" "maxfd (drop_connection i D) = maxfd D"
  "pipe_fd (drop_connection i D) = pipe_fd D" "x11_fd (drop_connection i D) = x11_fd D"
  "active_fds (drop_connection i D) = active_fds D - {i}" "handlers (drop_connection i D) = (handlers D)[i := None]"
  "d_repo (drop_connection i D) = d_repo D"
  by (simp_all add: drop_connection_def Let_def)

lemma deliver_frame [simp]:
  "d_sockfd (deliver j p s D) = d_sockfd D" "maxfd (deliver j p s D) = maxfd D"
  "pipe_fd (deliver j p s D) = pipe_fd D" "x11_fd (deliver j p s D) = x11_fd D"
  "active_fds (deliver j p s D) = active_fds D" "length (handlers (deliver j p s D)) = length (handlers D)"
  by (induction j p s D rule: deliver.induct) (simp_all split: option.split)

lemma reap_frame [simp]:
  "d_sockfd (reap ws D) = d_sockfd D" "maxfd (reap ws D) = maxfd D"
  "pipe_fd (reap ws D) = pipe_fd D" "x11_fd (reap ws D) = x11_fd D"
  "active_fds (reap ws D) = active_fds D" "length (handlers (reap ws D)) = length (handlers D)"
  by (induction ws D rule: reap.induct) simp_all

lemma visit_fd_frame:
  assumes "visit_fd R i D = Some (Running D')"
  shows "d_sockfd D' = d_sockfd D" and "i \<noteq> d_sockfd D \<Longrightarrow> maxfd D' = maxfd D"
  using assms
  by (auto simp: visit_fd_def serve_connection_def accept_connection_def Let_def
      split: if_splits option.splits outcome.splits prod.splits)

lemma visit_advances:
  "visit_fd R i D = Some (Running D') \<Longrightarrow> d_sockfd D' = d_sockfd D \<and> (i = d_sockfd D \<or> maxfd D' = maxfd D)"
  using visit_fd_frame [of R i D D'] by auto

function visit :: "round_env \<Rightarrow> nat set \<Rightarrow> nat \<Rightarrow> daemon \<Rightarrow> round_result option" where
  "visit R tmp_fds i D =
     (if \<not> i \<le> maxfd D then Some (Running D)
      else if i \<notin> tmp_fds then visit R tmp_fds (i + 1) D
      else case visit_fd R i D of
        Some (Running D') \<Rightarrow> visit R tmp_fds (i + 1) D'
      | r \<Rightarrow> r)"
  by pat_completeness auto
termination
  by (relation "measures [\<lambda>(R, tmp, i, D). if i \<le> d_sockfd D then 1 else 0, \<lambda>(R, tmp, i, D). maxfd D + 1 - i]")
    (auto dest: visit_advances)

declare visit.simps [simp del]

definition main_round :: "round_env \<Rightarrow> daemon \<Rightarrow> round_result option" where
  "main_round R D =
     (case r_select R of
        Select_EINTR \<Rightarrow> Some (Running D)
      | Select_error \<Rightarrow> Some (Stopped 1 D)
      | Ready tmp_fds \<Rightarrow> visit R tmp_fds 0 (D\<lparr>d_repo := snd (expire (r_now R) (d_repo D))\<rparr>))"

fun main_loop :: "round_env list \<Rightarrow> daemon \<Rightarrow> round_result option" where
  "main_loop [] D = Some (Running D)"
| "main_loop (R # Rs) D =
     (case main_round R D of
        Some (Running D') \<Rightarrow> main_loop Rs D'
      | r \<Rightarrow> r)"

section \<open>The invariant of the loop\<close>

definition handler_at :: "daemon \<Rightarrow> nat \<Rightarrow> connection option" where
  "handler_at D j = (if j < length (handlers D) then handlers D ! j else None)"

definition special_fds :: "daemon \<Rightarrow> nat set" where
  "special_fds D = {d_sockfd D, pipe_fd D} \<union> set_option (x11_fd D)"

definition conn_ok :: "connection \<Rightarrow> bool" where
  "conn_ok c \<longleftrightarrow> (m_Pass c \<noteq> None \<longrightarrow> m_Timeout c \<noteq> None) \<and> NL \<notin> set (m_Buf c) \<and> length (m_Buf c) < BUF_SIZE - 1"

text \<open>
  The descriptors watched are the special ones and those of the connections, which are
  different; each connection is at the index of its descriptor and in a good state.
\<close>

definition daemon_inv :: "daemon \<Rightarrow> bool" where
  "daemon_inv D \<longleftrightarrow> vault_inv (d_repo D) \<and>
     (\<forall>j c. handler_at D j = Some c \<longrightarrow> m_Fd c = int j \<and> conn_ok c) \<and>
     active_fds D = special_fds D \<union> {j. handler_at D j \<noteq> None} \<and>
     (\<forall>j \<in> special_fds D. handler_at D j = None) \<and>
     (\<forall>j \<in> active_fds D. j \<le> maxfd D)"

lemma daemon_inv_start: "daemon_inv (start_daemon sfd pipe x11)"
  by (cases x11) (auto simp: daemon_inv_def start_daemon_def handler_at_def special_fds_def vault_inv_def
      new_repository_def repo_inv_def)

lemma link_inv_session_of: "link_inv (session_of c D) \<longleftrightarrow> repo_inv (d_repo D) \<and> conn_ok c"
  by (auto simp: link_inv_def session_inv_def session_of_def conn_ok_def)

lemma special_frame [simp]:
  "special_fds (put_session i S D) = special_fds D" "special_fds (drop_connection i D) = special_fds D"
  by (simp_all add: special_fds_def)

lemma handler_at_put [simp]:
  "handler_at (put_session i S D) j =
     (if j = i \<and> i < length (handlers D) then Some (conn S) else handler_at D j)"
  by (simp add: handler_at_def)

lemma handler_at_drop [simp]: "handler_at (drop_connection i D) j = (if j = i then None else handler_at D j)"
  by (auto simp: handler_at_def)

lemma daemon_inv_put:
  assumes "daemon_inv D" "handler_at D i = Some c" "m_Fd (conn S) = m_Fd c" "conn_ok (conn S)" "vault_inv (store S)"
  shows "daemon_inv (put_session i S D)"
proof -
  have "i < length (handlers D)" using assms(2) by (auto simp: handler_at_def split: if_splits)
  then show ?thesis using assms unfolding daemon_inv_def by (auto split: if_splits)
qed

lemma daemon_inv_drop:
  assumes "daemon_inv D" "handler_at D i = Some c" "vault_inv (store S)"
  shows "daemon_inv (drop_connection i (put_session i S D))"
  using assms unfolding daemon_inv_def by (auto split: if_splits)

lemma child_exited_frame:
  "m_Fd (conn (child_exited st S)) = m_Fd (conn S)" "store (child_exited st S) = store S"
  "conn_ok (conn (child_exited st S)) = conn_ok (conn S)"
  by (simp_all add: child_exited_def Let_def conn_ok_def)

lemma daemon_inv_deliver: "j \<le> length (handlers D) \<Longrightarrow> daemon_inv D \<Longrightarrow> daemon_inv (deliver j p st D)"
proof (induction j p st D rule: deliver.induct)
  case (2 j p st D)
  show ?case
  proof (cases "handlers D ! j")
    case (Some c)
    then have at: "handler_at D j = Some c" using 2 by (simp add: handler_at_def)
    then have "conn_ok c" "vault_inv (d_repo D)" using 2 by (auto simp: daemon_inv_def)
    then have "daemon_inv (put_session j (child_exited st (session_of c D)) D)"
      by (intro daemon_inv_put [OF "2.prems"(2) at]) (simp_all add: child_exited_frame, simp_all add: session_of_def)
    then show ?thesis using 2 Some by simp
  qed (use 2 in simp)
qed simp

lemma daemon_inv_reap: "daemon_inv D \<Longrightarrow> daemon_inv (reap ws D)"
  by (induction ws D rule: reap.induct) (simp_all add: daemon_inv_deliver)

lemma accept_handler_at:
  assumes "0 \<le> r_accept R (active_fds D)"
  shows "handler_at (accept_connection R D) j =
    (if j = nat (r_accept R (active_fds D)) then Some (new_connection (r_accept R (active_fds D)) (r_peer R))
     else handler_at D j)"
  using assms by (auto simp: handler_at_def accept_connection_def Let_def nth_append nth_list_update)

lemma accept_frame:
  "d_repo (accept_connection R D) = d_repo D" "special_fds (accept_connection R D) = special_fds D"
  "length (handlers D) \<le> length (handlers (accept_connection R D))"
  "active_fds D \<subseteq> active_fds (accept_connection R D)" "pipe_fd (accept_connection R D) = pipe_fd D"
  by (auto simp: accept_connection_def Let_def special_fds_def)

lemma accept_active:
  "0 \<le> r_accept R (active_fds D) \<Longrightarrow>
     active_fds (accept_connection R D) = insert (nat (r_accept R (active_fds D))) (active_fds D) \<and>
     maxfd (accept_connection R D) = max (maxfd D) (nat (r_accept R (active_fds D)))"
  by (simp add: accept_connection_def Let_def)

lemma daemon_inv_accept:
  assumes "daemon_inv D" and "0 \<le> r_accept R (active_fds D) \<longrightarrow> nat (r_accept R (active_fds D)) \<notin> active_fds D"
  shows "daemon_inv (accept_connection R D)"
proof (cases "0 \<le> r_accept R (active_fds D)")
  case False
  then show ?thesis using assms(1) by (simp add: accept_connection_def Let_def)
next
  case True
  define f where "f = r_accept R (active_fds D)"
  let ?D = "accept_connection R D"
  have new: "conn_ok (new_connection f p)" "m_Fd (new_connection f p) = f" for p
    by (simp_all add: conn_ok_def new_connection_def BUF_SIZE_def)
  have f: "0 \<le> f" "nat f \<notin> active_fds D" using True assms(2) by (simp_all add: f_def)
  have at: "handler_at ?D j = (if j = nat f then Some (new_connection f (r_peer R)) else handler_at D j)" for j
    using accept_handler_at [OF True] by (simp add: f_def)
  have act: "active_fds ?D = insert (nat f) (active_fds D)" "maxfd ?D = max (maxfd D) (nat f)"
    using accept_active [OF True] by (simp_all add: f_def)
  have old: "special_fds ?D = special_fds D" "d_repo ?D = d_repo D" by (simp_all add: accept_frame)
  from assms(1) have inv: "vault_inv (d_repo D)" "\<And>j c. handler_at D j = Some c \<Longrightarrow> m_Fd c = int j \<and> conn_ok c"
    "active_fds D = special_fds D \<union> {j. handler_at D j \<noteq> None}"
    "\<forall>j \<in> special_fds D. handler_at D j = None" "\<forall>j \<in> active_fds D. j \<le> maxfd D"
    by (auto simp: daemon_inv_def)
  show ?thesis
    unfolding daemon_inv_def old
  proof (intro conjI)
    show "\<forall>j c. handler_at ?D j = Some c \<longrightarrow> m_Fd c = int j \<and> conn_ok c" using inv(2) new f by (auto simp: at)
    show "active_fds ?D = special_fds D \<union> {j. handler_at ?D j \<noteq> None}" using inv(3) by (auto simp: at act)
    show "\<forall>j \<in> special_fds D. handler_at ?D j = None" using inv(3,4) f(2) by (auto simp: at)
    show "\<forall>j \<in> active_fds ?D. j \<le> maxfd ?D" using inv(5) by (auto simp: act le_max_iff_disj)
  qed (rule inv(1))
qed

section \<open>Safety of a round\<close>

lemma vault_lines: "lines_loop E S = Some (out, S') \<Longrightarrow> m_Buf (conn S) = s \<Longrightarrow> vault_inv (store S) \<Longrightarrow> vault_inv (store S')"
proof (induction s E arbitrary: S rule: line_induct)
  case (idle s E)
  then show ?case by (simp add: lines_loop_idle)
next
  case (line l r E)
  obtain out1 S1 where run: "doCommand (E 0) (l @ [NL]) (with_buf r S) = Some (out1, S1)"
    using line.prems line.hyps by (cases "doCommand (E 0) (l @ [NL]) (with_buf r S)") (auto simp: lines_loop_line)
  have v: "vault_inv (store S1)" by (rule vault_doCommand [OF run]) (simp add: line.prems)
  have b: "m_Buf (conn S1) = r" using doCommand_frame [OF run] by (simp add: same_link_def)
  from line.prems line.hyps run v line.IH [OF _ b v] show ?case
    by (auto simp: lines_loop_line split: outcome.splits if_splits)
qed

lemma vault_handle:
  assumes "handle recv E S = Some (out, S')" "vault_inv (store S)"
  shows "vault_inv (store S')"
proof (cases "recv (BUF_SIZE - 1 - length (m_Buf (conn S)))")
  case (Received d)
  with assms show ?thesis
    using vault_lines [of E "set_conn (\<lambda>c. c\<lparr>m_Buf := m_Buf c @ d\<rparr>) S" out S' "m_Buf (conn S) @ d"]
    by (auto simp: handle_def Let_def split: if_splits)
qed (use assms in \<open>auto simp: handle_def\<close>)

text \<open>What the system promises of one round.\<close>

definition round_ok :: "round_env \<Rightarrow> daemon \<Rightarrow> bool" where
  "round_ok R D \<longleftrightarrow> (\<forall>tmp. r_select R = Ready tmp \<longrightarrow> tmp \<subseteq> active_fds D) \<and>
     (\<forall>A. 0 \<le> r_accept R A \<longrightarrow> nat (r_accept R A) \<notin> A) \<and> (\<forall>A. r_accept R A < FD_SETSIZE) \<and>
     (\<forall>i. recv_ok (r_recv R i))"

lemma serve_connection_good:
  assumes "daemon_inv D" "i < length (handlers D)" "recv_ok (r_recv R i)"
  obtains r where "serve_connection R i D = Some r"
    "\<And>D'. r = Running D' \<Longrightarrow> daemon_inv D' \<and> active_fds D - {i} \<subseteq> active_fds D' \<and>
       length (handlers D') = length (handlers D) \<and> pipe_fd D' = pipe_fd D"
proof (cases "handlers D ! i")
  case None
  show ?thesis
  proof (rule that [of "Running D"])
    show "serve_connection R i D = Some (Running D)" using None assms(2) by (simp add: serve_connection_def)
  qed (use assms(1) in auto)
next
  case (Some c)
  then have at: "handler_at D i = Some c" using assms(2) by (simp add: handler_at_def)
  then have c: "conn_ok c" "vault_inv (d_repo D)" using assms(1) by (auto simp: daemon_inv_def)
  then have "link_inv (session_of c D)" by (simp add: link_inv_session_of vault_inv_def)
  then have link: "link_inv (session_of c D)" .
  obtain out S where h: "handle (r_recv R i) (r_cmd R i) (session_of c D) = Some (out, S)"
    "out = Return 0 \<longrightarrow> link_inv S" "\<forall>ret. out = Return ret \<longrightarrow> ret = 0 \<or> ret = -1"
    "m_Fd (conn S) = m_Fd c"
    using handle_ex [OF link assms(3), of "r_cmd R i"] unfolding session_of_def session.select_convs by blast
  have v: "vault_inv (store S)" using vault_handle [OF h(1)] c(2) by (simp add: session_of_def)
  have serve: "serve_connection R i D = Some (case out of
      Return ret \<Rightarrow> Running (if ret < 0 then drop_connection i (put_session i S D) else put_session i S D)
    | Exited n \<Rightarrow> Stopped n (put_session i S D)
    | Child job \<Rightarrow> In_child job (put_session i S D))"
    using Some h(1) assms(2) by (simp add: serve_connection_def split: outcome.split)
  show ?thesis
  proof (cases out)
    case (Return ret)
    then consider "ret = 0" | "ret = -1" using h(3) by blast
    then show ?thesis
    proof cases
      case 1
      then have "conn_ok (conn S)" using h(2) Return by (simp add: link_inv_def session_inv_def conn_ok_def)
      then have "daemon_inv (put_session i S D)" by (rule daemon_inv_put [OF assms(1) at h(4) _ v])
      then show ?thesis by (intro that [OF serve]) (use Return 1 in auto)
    next
      case 2
      have "daemon_inv (drop_connection i (put_session i S D))" by (rule daemon_inv_drop [OF assms(1) at v])
      then show ?thesis by (intro that [OF serve]) (use Return 2 in auto)
    qed
  next
    case (Exited n)
    show ?thesis by (rule that [OF serve]) (simp add: Exited)
  next
    case (Child job)
    show ?thesis by (rule that [OF serve]) (simp add: Child)
  qed
qed

lemma new_repo_frame:
  "handler_at (D\<lparr>d_repo := r\<rparr>) j = handler_at D j" "special_fds (D\<lparr>d_repo := r\<rparr>) = special_fds D"
  by (simp_all add: handler_at_def special_fds_def)

lemma daemon_inv_repo: "daemon_inv D \<Longrightarrow> vault_inv r \<Longrightarrow> daemon_inv (D\<lparr>d_repo := r\<rparr>)"
  unfolding daemon_inv_def new_repo_frame by simp

lemma visit_good:
  assumes "daemon_inv D" "\<forall>f \<in> tmp. i \<le> f \<longrightarrow> f \<in> active_fds D" "pipe_fd D \<in> tmp \<longrightarrow> pipe_fd D < length (handlers D)"
    and "\<forall>A. 0 \<le> r_accept R A \<longrightarrow> nat (r_accept R A) \<notin> A" "\<forall>A. r_accept R A < FD_SETSIZE" "\<forall>i. recv_ok (r_recv R i)"
  shows "\<exists>r. visit R tmp i D = Some r \<and> (\<forall>D'. r = Running D' \<longrightarrow> daemon_inv D')"
  using assms
proof (induction R tmp i D rule: visit.induct)
  case (1 R tmp i D)
  note prems = "1.prems"
  show ?case
  proof (cases "i \<le> maxfd D \<and> i \<in> tmp")
    case False
    then show ?thesis using "1.IH"(1) prems by (auto simp: visit.simps [of R tmp i D])
  next
    case True
    let ?D = "if i = pipe_fd D then reap (r_wait R) D else D"
    have inv: "daemon_inv ?D" using prems(1) by (simp add: daemon_inv_reap)
    have same: "active_fds ?D = active_fds D" "length (handlers ?D) = length (handlers D)" "pipe_fd ?D = pipe_fd D"
      "special_fds ?D = special_fds D" "d_sockfd ?D = d_sockfd D" "x11_fd ?D = x11_fd D"
      by (simp_all add: special_fds_def)
    have "\<exists>r. visit_fd R i D = Some r \<and> (\<forall>D'. r = Running D' \<longrightarrow>
        daemon_inv D' \<and> active_fds D - {i} \<subseteq> active_fds D' \<and> length (handlers D) \<le> length (handlers D') \<and> pipe_fd D' = pipe_fd D)"
    proof (cases "x11_fd D = Some i \<or> i = d_sockfd D")
      case True
      then show ?thesis
        using inv same daemon_inv_accept [OF inv] prems(4,5) accept_frame(3,4) [of ?D R] accept_frame(5) [of R ?D] by (auto simp: visit_fd_def Let_def)
    next
      case False
      have "i \<in> active_fds D" using True prems(2) by simp
      then have "i < length (handlers D)"
        using False True prems(1,3) by (auto simp: daemon_inv_def special_fds_def handler_at_def split: if_splits)
      then obtain r where "serve_connection R i ?D = Some r"
        "\<And>D'. r = Running D' \<Longrightarrow> daemon_inv D' \<and> active_fds ?D - {i} \<subseteq> active_fds D' \<and>
          length (handlers D') = length (handlers ?D) \<and> pipe_fd D' = pipe_fd ?D"
        using serve_connection_good [OF inv, of i R] same prems(6) by metis
      then show ?thesis using False same by (auto simp: visit_fd_def Let_def)
    qed
    then obtain r where r: "visit_fd R i D = Some r" "\<And>D'. r = Running D' \<Longrightarrow>
        daemon_inv D' \<and> active_fds D - {i} \<subseteq> active_fds D' \<and> length (handlers D) \<le> length (handlers D') \<and> pipe_fd D' = pipe_fd D"
      by blast
    show ?thesis
    proof (cases r)
      case (Running D')
      have "\<exists>r. visit R tmp (i + 1) D' = Some r \<and> (\<forall>D''. r = Running D'' \<longrightarrow> daemon_inv D'')"
        using r(2) [OF Running] prems True
        by (intro "1.IH"(2) [OF _ _ r(1) Running]) (auto simp: Suc_le_eq)
      then show ?thesis using True r(1) Running by (simp add: visit.simps [of R tmp i D])
    qed (use True r(1) in \<open>simp_all add: visit.simps [of R tmp i D]\<close>)
  qed
qed

lemma main_round_good:
  assumes "daemon_inv D" "round_ok R D"
    and "\<forall>tmp. r_select R = Ready tmp \<longrightarrow> pipe_fd D \<in> tmp \<longrightarrow> pipe_fd D < length (handlers D)"
  shows "\<exists>r. main_round R D = Some r \<and> (\<forall>D'. r = Running D' \<longrightarrow> daemon_inv D')"
proof (cases "r_select R")
  case (Ready tmp)
  let ?D = "D\<lparr>d_repo := snd (expire (r_now R) (d_repo D))\<rparr>"
  have "daemon_inv ?D"
    using assms(1) by (intro daemon_inv_repo vault_expire) (simp_all add: daemon_inv_def)
  then show ?thesis
    using visit_good [of ?D tmp 0 R] assms(2,3) Ready by (auto simp: main_round_def round_ok_def)
qed (use assms in \<open>auto simp: main_round_def\<close>)

text \<open>Without that promise a round may write outside the set of descriptors.\<close>

lemma accept_overflow:
  assumes "FD_SETSIZE \<le> r_accept R (active_fds D)" and "d_sockfd D \<noteq> pipe_fd D" and "x11_fd D \<noteq> Some (d_sockfd D)"
  shows "visit_fd R (d_sockfd D) D = None"
  using assms by (simp add: visit_fd_def)

section \<open>Exit codes\<close>

lemma deliver_spec:
  assumes "j < k" "k \<le> length (handlers D)" "handlers D ! j = Some c" "m_pid c = p"
    and "\<forall>i c'. j < i \<and> i < k \<and> handlers D ! i = Some c' \<longrightarrow> m_pid c' \<noteq> p"
  shows "deliver k p st D = put_session j (child_exited st (session_of c D)) D"
  using assms
proof (induction k p st D rule: deliver.induct)
  case (2 k p st D)
  show ?case
  proof (cases "j = k")
    case True
    then show ?thesis using "2.prems" by simp
  next
    case False
    then show ?thesis
      using "2.prems" "2.IH"(1) "2.IH"(2) by (cases "handlers D ! k") (auto simp: less_Suc_eq)
  qed
qed simp

lemma child_exited_result:
  "conn (child_exited st S) = (conn S)\<lparr>m_exitCode := WEXITSTATUS st, m_hasExitCode := True, m_pid := 0\<rparr>"
  "sent (child_exited st S) =
     sent S @ (if m_needExitCode (conn S) then [''OK '' @ setNum (WEXITSTATUS st) @ [NL]] else [])"
  by (simp_all add: child_exited_def Let_def sendExitCode_def send_msg_def)

end
