(* ===== verification/Runs.thy ===== *)
theory Runs
  imports Daemon
begin

text \<open>
  Many rounds of the daemon's main loop: \<open>daemon_step\<close> is one round, with whatever answers the
  system may give, as a step relation. The lemmas show what every visit of a descriptor keeps, a
  round keeps, and that a round has a result and keeps the invariant of the loop; the locale of
  machines turns this into a fact about every state that is reached. The last lemmas are on what a
  round leaves alone: a connection with nothing to read whose child does not end.
\<close>

section \<open>Rounds as steps\<close>

text \<open>
  What the system promises of a round beyond \<^const>\<open>round_ok\<close>: the pipe was made before any
  connection, so that new descriptors are larger; and a signal for a child arrives only when
  there has been a connection, as the daemon has no other children.
\<close>

definition round_fits :: "round_env \<Rightarrow> daemon \<Rightarrow> bool" where
  "round_fits R D \<longleftrightarrow> round_ok R D \<and>
     (\<forall>A. 0 \<le> r_accept R A \<longrightarrow> pipe_fd D < nat (r_accept R A)) \<and>
     (\<forall>tmp. r_select R = Ready tmp \<longrightarrow> pipe_fd D \<in> tmp \<longrightarrow> handlers D \<noteq> [])"

inductive daemon_step :: "daemon \<Rightarrow> daemon \<Rightarrow> bool" where
  round: "round_fits R D \<Longrightarrow> main_round R D = Some (Running D') \<Longrightarrow> daemon_step D D'"

inductive_cases daemon_stepE: "daemon_step D D'"

definition daemon_starts :: "daemon \<Rightarrow> bool" where
  "daemon_starts D \<longleftrightarrow> (\<exists>sfd pipe x11. D = start_daemon sfd pipe x11)"

definition run_inv :: "daemon \<Rightarrow> bool" where
  "run_inv D \<longleftrightarrow> daemon_inv D \<and> (handlers D = [] \<or> pipe_fd D < length (handlers D))"

text \<open>What every visit of a descriptor keeps, a round keeps.\<close>

lemma visit_keeps:
  assumes "\<And>i D D'. i \<in> tmp \<Longrightarrow> visit_fd R i D = Some (Running D') \<Longrightarrow> Q D \<Longrightarrow> Q D'"
    and "visit R tmp i D = Some r" and "Q D"
  shows "case r of Running D' \<Rightarrow> Q D' | _ \<Rightarrow> \<exists>j D1. Q D1 \<and> visit_fd R j D1 = Some r"
  using assms
proof (induction R tmp i D rule: visit.induct [case_names visit])
  case (visit R tmp i D)
  note step = visit.prems(2) [unfolded visit.simps [of R tmp i D]]
  show ?case
  proof (cases "i \<le> maxfd D")
    case le: True
    show ?thesis
    proof (cases "i \<in> tmp")
      case True
      with le step obtain r' where r': "visit_fd R i D = Some r'" by (auto split: option.splits)
      show ?thesis
      proof (cases r')
        case (Running D1)
        with le True step r' have "visit R tmp (i + 1) D1 = Some r" by simp
        from visit.IH(2) [OF _ _ r' Running visit.prems(1) this visit.prems(1) [OF True r' [unfolded Running] visit.prems(3)]] le True
        show ?thesis by simp
      next
        case (Stopped n D1)
        with le True step r' have "r = r'" by simp
        then show ?thesis using Stopped r' visit.prems(3) by auto
      next
        case (In_child job D1)
        with le True step r' have "r = r'" by simp
        then show ?thesis using In_child r' visit.prems(3) by auto
      qed
    next
      case False
      then show ?thesis using visit.IH(1) le step visit.prems(1,3) by simp
    qed
  qed (use step visit.prems(3) in auto)
qed

text \<open>If a single descriptor is ready, the round is the visit of that one.\<close>

lemma visit_only:
  assumes "i \<le> n" and "n \<le> maxfd D"
  shows "visit R {n} i D = visit R {n} n D"
  using assms
proof (induction "n - i" arbitrary: i)
  case (Suc k)
  then have "i \<noteq> n" "i \<le> maxfd D" by auto
  then have "visit R {n} i D = visit R {n} (i + 1) D" by (subst visit.simps) simp
  with Suc show ?case by simp
qed simp

text \<open>What the visit of a descriptor does, once the children are reaped.\<close>

lemma visit_fd_result:
  assumes "visit_fd R i D = Some r" and "E = (if i = pipe_fd D then reap (r_wait R) D else D)"
  obtains "r = Running E" | "r = Running (accept_connection R E)" | "serve_connection R i E = Some r"
proof -
  have "visit_fd R i D = (if x11_fd E = Some i then Some (Running E)
      else if i = d_sockfd E then
        if r_accept R (active_fds E) < FD_SETSIZE then Some (Running (accept_connection R E)) else None
      else serve_connection R i E)"
    by (simp only: visit_fd_def assms(2) Let_def)
  with assms(1) show thesis using that by (metis option.distinct(1) option.inject)
qed

lemma visit_fd_cases:
  assumes "visit_fd R i D = Some (Running D')" and "E = (if i = pipe_fd D then reap (r_wait R) D else D)"
  obtains "D' = E" | "D' = accept_connection R E" | "serve_connection R i E = Some (Running D')"
  by (rule visit_fd_result [OF assms]) (use that in simp_all)

lemma serve_handlers:
  assumes "serve_connection R i D = Some (Running D')"
  shows "length (handlers D') = length (handlers D)" and "pipe_fd D' = pipe_fd D"
  using assms by (auto simp: serve_connection_def split: if_splits option.splits prod.splits outcome.splits)

lemma accept_length:
  "length (handlers (accept_connection R D)) =
     (if r_accept R (active_fds D) < 0 then length (handlers D)
      else max (length (handlers D)) (nat (r_accept R (active_fds D)) + 1))"
  by (simp add: accept_connection_def Let_def max_def)

lemma visit_fd_handlers:
  assumes "visit_fd R i D = Some (Running D')"
    and "\<forall>A. 0 \<le> r_accept R A \<longrightarrow> p < nat (r_accept R A)"
    and "pipe_fd D = p \<and> (handlers D = [] \<or> p < length (handlers D))"
  shows "pipe_fd D' = p \<and> (handlers D' = [] \<or> p < length (handlers D'))"
proof -
  define E where "E = (if i = pipe_fd D then reap (r_wait R) D else D)"
  have "length (handlers E) = length (handlers D)" "pipe_fd E = pipe_fd D" by (simp_all add: E_def)
  then have before: "pipe_fd E = p" "length (handlers E) = 0 \<or> p < length (handlers E)" using assms(3) by auto
  from assms(1) E_def have "pipe_fd D' = p \<and> (length (handlers D') = 0 \<or> p < length (handlers D'))"
  proof (cases rule: visit_fd_cases)
    case 1
    then show ?thesis using before by simp
  next
    case 2
    moreover have "p < length (handlers E) \<or> p < nat (r_accept R (active_fds E)) + 1 \<or>
        length (handlers E) = 0 \<and> r_accept R (active_fds E) < 0"
      using before(2) assms(2) [rule_format, of "active_fds E"] by linarith
    ultimately show ?thesis
      using before(1) accept_frame(5) [of R E] accept_length [of R E] by auto
  next
    case 3
    from serve_handlers [OF this] before show ?thesis by simp
  qed
  then show ?thesis by simp
qed

lemma round_inv:
  assumes "round_fits R D" and "run_inv D"
  shows "\<exists>r. main_round R D = Some r \<and> (\<forall>D'. r = Running D' \<longrightarrow> run_inv D')"
proof -
  have "\<forall>tmp. r_select R = Ready tmp \<longrightarrow> pipe_fd D \<in> tmp \<longrightarrow> pipe_fd D < length (handlers D)"
    using assms by (auto simp: round_fits_def run_inv_def)
  then obtain r where r: "main_round R D = Some r" "\<And>D'. r = Running D' \<Longrightarrow> daemon_inv D'"
    using main_round_good [of D R] assms by (auto simp: round_fits_def run_inv_def)
  have "handlers D' = [] \<or> pipe_fd D' < length (handlers D')" if "r = Running D'" for D'
  proof (cases "r_select R")
    case (Ready tmp)
    let ?D = "D\<lparr>d_repo := snd (expire (r_now R) (d_repo D))\<rparr>"
    let ?Q = "\<lambda>E. pipe_fd E = pipe_fd D \<and> (handlers E = [] \<or> pipe_fd D < length (handlers E))"
    have acc: "\<forall>A. 0 \<le> r_accept R A \<longrightarrow> pipe_fd D < nat (r_accept R A)" using assms(1) by (simp add: round_fits_def)
    have "visit R tmp 0 ?D = Some (Running D')" using r(1) that Ready by (simp add: main_round_def)
    moreover have "?Q ?D" using assms(2) by (auto simp: run_inv_def)
    ultimately have "?Q D'"
      using visit_keeps [of tmp R ?Q 0 ?D "Running D'"] visit_fd_handlers [OF _ acc] by simp
    then show ?thesis by auto
  qed (use r(1) that assms(2) in \<open>auto simp: main_round_def run_inv_def\<close>)
  with r show ?thesis by (auto simp: run_inv_def)
qed

section \<open>Connections do not disturb each other\<close>

text \<open>The connection on a descriptor, with the messages it has been sent.\<close>

definition seen_by :: "nat \<Rightarrow> daemon \<Rightarrow> connection option \<times> (nat \<times> bytes) list" where
  "seen_by i D = (handler_at D i, filter (\<lambda>m. fst m = i) (sent_to D))"

lemma seen_by_other:
  assumes "j \<noteq> i"
  shows "seen_by i (put_session j S D) = seen_by i D" and "seen_by i (drop_connection j D) = seen_by i D"
proof -
  have "filter (\<lambda>m. fst m = i) (map (Pair j) ms) = []" for ms :: "bytes list" using assms by (induction ms) simp_all
  then show "seen_by i (put_session j S D) = seen_by i D"
    using assms by (simp add: seen_by_def handler_at_def) (simp add: put_session_def)
  show "seen_by i (drop_connection j D) = seen_by i D"
    using assms by (auto simp: seen_by_def handler_at_def)
      (simp add: drop_connection_def delete_handler_def Let_def split: option.split)
qed

lemma seen_by_deliver:
  "handler_at D i = Some c \<Longrightarrow> m_pid c \<noteq> p \<Longrightarrow> k \<le> length (handlers D) \<Longrightarrow> seen_by i (deliver k p st D) = seen_by i D"
proof (induction k p st D rule: deliver.induct)
  case (2 k p st D)
  have "handlers D ! k = handler_at D k" using 2 by (simp add: handler_at_def)
  then show ?case using 2 by (cases "k = i") (auto simp: seen_by_other split: option.split)
qed simp

lemma seen_by_reap:
  "handler_at D i = Some c \<Longrightarrow> \<forall>(p, st) \<in> set ws. p \<noteq> m_pid c \<Longrightarrow> seen_by i (reap ws D) = seen_by i D"
proof (induction ws D rule: reap.induct)
  case (2 p st ws D)
  then have "seen_by i (deliver (length (handlers D)) p st D) = seen_by i D" by (intro seen_by_deliver) auto
  then show ?case using 2 by (auto simp: seen_by_def)
qed simp

lemma seen_by_accept:
  assumes "i \<in> active_fds D" "\<And>A. 0 \<le> r_accept R A \<Longrightarrow> nat (r_accept R A) \<notin> A"
  shows "seen_by i (accept_connection R D) = seen_by i D"
proof -
  have "sent_to (accept_connection R D) = sent_to D"
    by (simp add: accept_connection_def delete_handler_def Let_def split: option.split)
  moreover have "handler_at (accept_connection R D) i = handler_at D i"
  proof (cases "0 \<le> r_accept R (active_fds D)")
    case True
    then show ?thesis using assms by (auto simp: accept_handler_at)
  qed (simp add: accept_connection_def Let_def)
  ultimately show ?thesis by (simp add: seen_by_def)
qed

lemma seen_by_visit_fd:
  assumes "visit_fd R j D = Some (Running D')" "j \<noteq> i" "handler_at D i = Some c" "i \<in> active_fds D"
    and "\<forall>(p, st) \<in> set (r_wait R). p \<noteq> m_pid c" "\<And>A. 0 \<le> r_accept R A \<Longrightarrow> nat (r_accept R A) \<notin> A"
  shows "seen_by i D' = seen_by i D \<and> i \<in> active_fds D'"
proof -
  define E where "E = (if j = pipe_fd D then reap (r_wait R) D else D)"
  have E: "seen_by i E = seen_by i D" "i \<in> active_fds E"
    using assms(3-5) by (simp_all add: E_def seen_by_reap)
  from assms(1) E_def show ?thesis
  proof (cases rule: visit_fd_cases)
    case 2
    then show ?thesis using E seen_by_accept [OF E(2) assms(6)] accept_frame(4) [of E R] by auto
  next
    case 3
    then show ?thesis using E assms(2) by (auto simp: serve_connection_def seen_by_other
        split: if_splits option.splits prod.splits outcome.splits)
  qed (use E in auto)
qed

lemma round_isolated:
  assumes "daemon_inv D" "round_ok R D" "main_round R D = Some (Running D')" "handler_at D i = Some c"
    and "\<And>tmp. r_select R = Ready tmp \<Longrightarrow> i \<notin> tmp" "\<forall>(p, st) \<in> set (r_wait R). p \<noteq> m_pid c"
  shows "seen_by i D' = seen_by i D"
proof (cases "r_select R")
  case (Ready tmp)
  let ?D = "D\<lparr>d_repo := snd (expire (r_now R) (d_repo D))\<rparr>"
  let ?Q = "\<lambda>E. seen_by i E = seen_by i D \<and> i \<in> active_fds E"
  have "?Q ?D" using assms(1,4) by (auto simp: seen_by_def daemon_inv_def new_repo_frame)
  moreover have "?Q E'" if "j \<in> tmp" "visit_fd R j E = Some (Running E')" "?Q E" for j E E'
    using seen_by_visit_fd [OF that(2), of i c] that assms(2,4,6) assms(5) [OF Ready]
    by (auto simp: seen_by_def round_ok_def)
  moreover have "visit R tmp 0 ?D = Some (Running D')" using assms(3) Ready by (simp add: main_round_def)
  ultimately show ?thesis using visit_keeps [of tmp R ?Q 0 ?D "Running D'"] by simp
qed (use assms(3) in \<open>auto simp: main_round_def\<close>)

interpretation dm: machine daemon_starts daemon_step run_inv
proof
  show "run_inv D" if "daemon_starts D" for D
    using that by (auto simp: daemon_starts_def run_inv_def daemon_inv_start) (simp add: start_daemon_def)
  show "run_inv D'" if "daemon_step D D'" "run_inv D" for D D'
  proof -
    from that(1) obtain R where "round_fits R D" "main_round R D = Some (Running D')" by (rule daemon_stepE)
    with round_inv [OF this(1) that(2)] show ?thesis by auto
  qed
qed

end
