(* ===== verification/Clock.thy ===== *)
theory Clock
  imports Runs
begin

text \<open>
  Time in a round of the daemon. \<open>fresh now r\<close> says that nothing in the repository has expired at
  \<open>now\<close>, the moment at which the round called \<^verbatim>\<open>expire()\<close>. Every command keeps it, as long as the
  clock does not run backwards within the round and stands before the year 2038, and with it a
  child gets a stored password only while that is valid.
\<close>

section \<open>What has not expired\<close>

definition fresh :: "64 word \<Rightarrow> repository \<Rightarrow> bool" where
  "fresh now r \<longleftrightarrow> (\<forall>e \<in> set (repo r). unsigned_time now < entry_timeout (snd e))"

definition time_ok :: "64 word \<Rightarrow> cmd_env \<Rightarrow> bool" where
  "time_ok now E \<longleftrightarrow> unat now \<le> unat (env_time1 E) \<and> unat now \<le> unat (env_time2 E) \<and>
     unat (env_time1 E) < 2 ^ 31 \<and> unat (env_time2 E) < 2 ^ 31"

definition seconds_ok :: "int \<Rightarrow> bool" where
  "seconds_ok t \<longleftrightarrow> 0 \<le> t \<and> t \<le> int_max"

lemma later_timeout:
  assumes "seconds_ok t" and "unat now \<le> unat later" and "unat later < 2 ^ 31"
  shows "unsigned_time now < absolute_timeout later (word_of_int t)"
proof -
  have n: "unat (unsigned_time now) = unat now"
    using assms(2,3) by (simp add: unsigned_time_def unsigned_ucast_eq take_bit_nat_eq_self)
  show ?thesis
  proof (cases "t = 0")
    case True
    have "unat (never :: 32 word) = 2 ^ 32 - 1" by (simp add: never_def unsigned_minus_1_eq_mask mask_eq_exp_minus_1)
    then show ?thesis using True n assms(2,3) by (simp add: absolute_timeout_def word_less_nat_alt)
  next
    case False
    then have "0 < t" "nat t + unat later < 2 ^ 32"
      using assms by (auto simp: seconds_ok_def int_max_def nat_less_iff)
    from timeout_number [OF this] n assms(2) \<open>0 < t\<close> show ?thesis by (simp add: word_less_nat_alt)
  qed
qed

lemma fresh_filter: "fresh now r \<Longrightarrow> repo r' = filter P (repo r) \<Longrightarrow> fresh now r'"
  by (simp add: fresh_def)

lemma fresh_remove:
  assumes "fresh now r" "repo_inv r"
  shows "fresh now (snd (remove k r))" "fresh now (snd (removeGroup k r))" "fresh now (snd (removeSpecialKey k r))"
proof -
  show "fresh now (snd (remove k r))"
    using assms(1) by (auto simp: fresh_def repo_remove qmap_erase_def split: if_splits)
  show "fresh now (snd (removeGroup k r))" by (rule fresh_filter [OF assms(1) removeGroup_spec(1) [OF assms(2)]])
  show "fresh now (snd (removeSpecialKey k r))" by (rule fresh_filter [OF assms(1) removeSpecialKey_spec(1) [OF assms(2)]])
qed

lemma fresh_expire: "repo_inv r \<Longrightarrow> fresh now (snd (expire now r))"
  by (auto simp: fresh_def expire_spec(1))

lemma fresh_add:
  assumes "fresh now r" "repo_inv r" "entry_timeout d = word_of_int t" "seconds_ok t"
    and "unat now \<le> unat later" "unat later < 2 ^ 31"
  shows "fresh now (fst (add k d later r))"
  using set_repo_add [OF assms(2), of _ k d later] later_timeout [OF assms(4-6)] assms(1,3)
  by (fastforce simp: fresh_def)

lemma fresh_store_pass:
  assumes "fresh now r" "repo_inv r" "seconds_ok t" "time_ok now E"
  shows "fresh now (store_pass E h a c chk p t r)"
  using assms by (simp add: store_pass_def Let_def time_ok_def fresh_add [where t = t] add_inv)

section \<open>The numbers of a message\<close>

lemma ref_token_num:
  assumes "ref_token s = (Tok_num, v, r)"
  shows "is_dec v"
proof (cases "s \<noteq> [] \<and> isdigit (hd s)")
  case True
  then have "v = takeWhile isdigit s" using assms by (simp add: ref_token_def)
  then show ?thesis using True by (cases s) (auto simp: is_dec_def list_all_iff dest: set_takeWhileD)
next
  case False
  have "fst (ref_quoted [] (tl s)) \<noteq> Tok_num" using ref_quoted_token [of "[]" "tl s"] by auto
  moreover have "keyword (takeWhile word_char s) \<noteq> Tok_num" by (rule keyword_not_none(2))
  ultimately show ?thesis using False assms by (cases "s \<noteq> [] \<and> hd s = DQUOTE") (auto simp: ref_token_def)
qed

lemma p_num_seconds:
  assumes "p_num s = Some (v, r)"
  shows "seconds_ok (toInt v)"
proof -
  from assms have lx: "ref_lex s = (Tok_num, v, r)" by (auto simp: p_num_def split: prod.splits if_splits)
  then obtain c cs where "s = c # cs" by (cases s) (simp_all add: ref_lex_def)
  with lx have "is_dec v" by (auto simp: ref_lex_def dest: ref_token_num split: if_splits)
  then show ?thesis using toInt_nonneg_digits toInt_in_int [of v] by (simp add: seconds_ok_def in_int_def)
qed

fun numbers_ok :: "request \<Rightarrow> bool" where
  "numbers_ok (C_pass p t) = seconds_ok t"
| "numbers_ok (C_set n v g t) = seconds_ok t"
| "numbers_ok _ = True"

lemma parse_numbers: "parse s = Some c \<Longrightarrow> numbers_ok c"
  by (auto simp: parse_def parse_args_def p_num_seconds split: prod.splits token.splits option.splits Option.bind_splits)

section \<open>Properties that the commands keep\<close>

text \<open>
  A property \<open>conn_good\<close> of a connection and one \<open>store_good\<close> of the repository which every
  command keeps, are kept by a call of \<^verbatim>\<open>handle\<close> and by a round of the main loop. A connection
  that is turned away may lose its property, as it is closed at once.
\<close>

definition started :: "child_job \<Rightarrow> session \<Rightarrow> session \<Rightarrow> bool" where
  "started job S S' \<longleftrightarrow> (\<exists>E c. run_command E c S = Some (Child job, S'))"

locale kept =
  fixes conn_good :: "connection \<Rightarrow> bool"
    and store_good :: "repository \<Rightarrow> bool"
    and env_good :: "cmd_env \<Rightarrow> bool"
  assumes kept_run: "run_command E c S = Some (out, S') \<Longrightarrow> conn_good (conn S) \<Longrightarrow> store_good (store S) \<Longrightarrow>
      env_good E \<Longrightarrow> numbers_ok c \<Longrightarrow> conn_good (conn S') \<and> store_good (store S')"
    and kept_buf: "conn_good (k\<lparr>m_Buf := b\<rparr>) = conn_good k"
    and kept_exit: "conn_good (k\<lparr>m_exitCode := x, m_hasExitCode := True, m_pid := 0\<rparr>) = conn_good k"
    and kept_new: "conn_good (new_connection fd peer)"
begin

definition ends_good :: "session \<Rightarrow> outcome \<Rightarrow> session \<Rightarrow> bool" where
  "ends_good S out S' \<longleftrightarrow> store_good (store S') \<and> (out \<noteq> Return (-1) \<longrightarrow> conn_good (conn S')) \<and>
     (\<forall>job. out = Child job \<longrightarrow> (\<exists>S0. conn_good (conn S0) \<and> store_good (store S0) \<and> started job S0 S'))"

lemma kept_doCommand:
  assumes "doCommand E s S = Some (out, S')" and "conn_good (conn S)" "store_good (store S)" "env_good E"
  shows "ends_good S out S'"
proof (cases "peerUid (m_peer (conn S)) = env_getuid E")
  case True
  show ?thesis
  proof (cases "parse s")
    case None
    then show ?thesis
      using refine_doCommand [OF True, of s] assms by (auto simp: refines_def rejects_def ends_good_def)
  next
    case (Some c)
    then have run: "run_command E c S = Some (out, S')"
      using refine_doCommand [OF True, of s] assms(1) by (simp add: refines_def)
    from kept_run [OF run assms(2-4) parse_numbers [OF Some]] run assms(2,3)
    show ?thesis by (auto simp: ends_good_def started_def)
  qed
qed (use assms in \<open>auto simp: doCommand_def ends_good_def\<close>)

lemma kept_lines:
  assumes "lines_loop E S = Some (out, S')" and "m_Buf (conn S) = s"
    and "conn_good (conn S)" "store_good (store S)" "\<And>i. env_good (E i)"
  shows "ends_good S out S'"
  using assms
proof (induction s E arbitrary: S rule: line_induct)
  case (idle s E)
  then show ?case by (auto simp: lines_loop_idle ends_good_def)
next
  case (line l r E)
  obtain out1 S1 where run: "doCommand (E 0) (l @ [NL]) (with_buf r S) = Some (out1, S1)"
    using line.prems line.hyps by (cases "doCommand (E 0) (l @ [NL]) (with_buf r S)") (auto simp: lines_loop_line)
  have "conn_good (conn (with_buf r S))" "store_good (store (with_buf r S))"
    using line.prems by (simp_all add: with_buf_def kept_buf)
  from kept_doCommand [OF run this line.prems(5)] have good: "ends_good S out1 S1" by (simp add: ends_good_def)
  show ?case
  proof (cases "\<exists>ret. out1 = Return ret \<and> \<not> ret < 0")
    case True
    then have "lines_loop (\<lambda>i. E (Suc i)) S1 = Some (out, S')"
      using line.prems line.hyps run by (auto simp: lines_loop_line)
    moreover have "m_Buf (conn S1) = r" using doCommand_frame [OF run] by (simp add: same_link_def with_buf_def)
    ultimately show ?thesis
      using line.IH [of "\<lambda>i. E (Suc i)" S1] good True line.prems(5) by (auto simp: ends_good_def)
  next
    case False
    then have "out = out1" "S' = S1"
      using line.prems line.hyps run by (auto simp: lines_loop_line split: outcome.splits if_splits)
    then show ?thesis using good by simp
  qed
qed

lemma kept_handle:
  assumes "handle recv E S = Some (out, S')"
    and "conn_good (conn S)" "store_good (store S)" "\<And>i. env_good (E i)"
  shows "ends_good S out S'"
proof (cases "recv (BUF_SIZE - 1 - length (m_Buf (conn S)))")
  case (Received d)
  let ?S = "set_conn (\<lambda>c. c\<lparr>m_Buf := m_Buf c @ d\<rparr>) S"
  have good: "conn_good (conn ?S)" "store_good (store ?S)" using assms(2,3) by (simp_all add: kept_buf)
  have "out = Return (-1) \<and> S' = ?S \<or> lines_loop E ?S = Some (out, S')"
    using assms(1) Received by (cases "length (m_Buf (conn ?S)) = BUF_SIZE - 1") (simp_all add: handle_def Let_def)
  then consider "out = Return (-1)" "S' = ?S" | "lines_loop E ?S = Some (out, S')" by blast
  then show ?thesis
  proof cases
    case 2
    from kept_lines [OF this refl good assms(4)] show ?thesis by (simp add: ends_good_def)
  qed (use good in \<open>simp add: ends_good_def\<close>)
qed (use assms in \<open>auto simp: handle_def ends_good_def\<close>)

definition all_good :: "daemon \<Rightarrow> bool" where
  "all_good D \<longleftrightarrow> store_good (d_repo D) \<and> (\<forall>j c. handler_at D j = Some c \<longrightarrow> conn_good c)"

lemma all_good_deliver: "j \<le> length (handlers D) \<Longrightarrow> all_good D \<Longrightarrow> all_good (deliver j p st D)"
proof (induction j p st D rule: deliver.induct)
  case (2 j p st D)
  show ?case
  proof (cases "handlers D ! j")
    case (Some c)
    then have "handler_at D j = Some c" using 2 by (simp add: handler_at_def)
    then have "conn_good c" using 2 by (auto simp: all_good_def)
    then have "all_good (put_session j (child_exited st (session_of c D)) D)"
      using "2.prems" by (auto simp: all_good_def child_exited_result child_exited_frame session_of_def kept_exit)
    then show ?thesis using 2 Some by simp
  qed (use 2 in simp)
qed simp

lemma all_good_reap: "all_good D \<Longrightarrow> all_good (reap ws D)"
  by (induction ws D rule: reap.induct) (simp_all add: all_good_deliver)

lemma all_good_accept: "all_good D \<Longrightarrow> all_good (accept_connection R D)"
  using accept_handler_at [of R D] kept_new accept_frame(1) [of R D]
  by (cases "0 \<le> r_accept R (active_fds D)") (auto simp: all_good_def split: if_splits, simp_all add: accept_connection_def)

text \<open>What serving a connection leaves, for the daemon and for a child it has forked.\<close>

lemma kept_serve:
  assumes "serve_connection R i D = Some r" and "all_good D" and "\<And>j. env_good (r_cmd R i j)"
  shows "case r of Running D' \<Rightarrow> all_good D'
    | In_child job D' \<Rightarrow> \<exists>c S0. handler_at D' i = Some c \<and> conn_good (conn S0) \<and> store_good (store S0) \<and>
        (\<exists>S'. conn S' = c \<and> store S' = d_repo D' \<and> started job S0 S')
    | Stopped n D' \<Rightarrow> True"
proof (cases "handlers D ! i")
  case None
  then show ?thesis using assms(1,2) by (auto simp: serve_connection_def split: if_splits)
next
  case (Some c)
  then have i: "i < length (handlers D)" using assms(1) by (simp add: serve_connection_def split: if_splits)
  with Some have "handler_at D i = Some c" by (simp add: handler_at_def)
  then have c: "conn_good (conn (session_of c D))" "store_good (store (session_of c D))"
    using assms(2) by (auto simp: all_good_def session_of_def)
  from assms(1) Some i obtain out S' where h: "handle (r_recv R i) (r_cmd R i) (session_of c D) = Some (out, S')"
    by (auto simp: serve_connection_def split: option.splits)
  note good = kept_handle [OF h c assms(3), unfolded ends_good_def]
  show ?thesis
  proof (cases out)
    case (Return ret)
    then have "all_good (if ret < 0 then drop_connection i (put_session i S' D) else put_session i S' D)"
      using good assms(2) by (auto simp: all_good_def)
    then show ?thesis using assms(1) Some i h Return by (auto simp: serve_connection_def)
  next
    case (Exited n)
    then show ?thesis using assms(1) Some i h by (auto simp: serve_connection_def)
  next
    case (Child job)
    then have "r = In_child job (put_session i S' D)" using assms(1) Some i h by (auto simp: serve_connection_def)
    then show ?thesis using good Child i by auto
  qed
qed

lemma kept_visit_fd:
  assumes "visit_fd R i D = Some r" and "all_good D" and "\<And>j. env_good (r_cmd R i j)"
  shows "case r of Running D' \<Rightarrow> all_good D'
    | In_child job D' \<Rightarrow> \<exists>c S0. handler_at D' i = Some c \<and> conn_good (conn S0) \<and> store_good (store S0) \<and>
        (\<exists>S'. conn S' = c \<and> store S' = d_repo D' \<and> started job S0 S')
    | Stopped n D' \<Rightarrow> True"
proof -
  define E where "E = (if i = pipe_fd D then reap (r_wait R) D else D)"
  have E: "all_good E" using assms(2) by (simp add: E_def all_good_reap)
  from assms(1) E_def show ?thesis
  proof (cases rule: visit_fd_result)
    case 3
    from kept_serve [OF this E assms(3)] show ?thesis .
  qed (use E all_good_accept [OF E, of R] in auto)
qed

lemma kept_round:
  assumes "main_round R D = Some r" and "all_good D" and "\<And>i j. env_good (r_cmd R i j)"
    and "\<And>tmp. r_select R = Ready tmp \<Longrightarrow> store_good (snd (expire (r_now R) (d_repo D)))"
  shows "case r of Running D' \<Rightarrow> all_good D'
    | In_child job D' \<Rightarrow> \<exists>i c S0. handler_at D' i = Some c \<and> conn_good (conn S0) \<and> store_good (store S0) \<and>
        (\<exists>S'. conn S' = c \<and> store S' = d_repo D' \<and> started job S0 S')
    | Stopped n D' \<Rightarrow> True"
proof (cases "r_select R")
  case (Ready tmp)
  let ?D = "D\<lparr>d_repo := snd (expire (r_now R) (d_repo D))\<rparr>"
  have "all_good ?D" using assms(2,4) Ready by (simp add: all_good_def new_repo_frame)
  moreover have "visit R tmp 0 ?D = Some r" using assms(1) Ready by (simp add: main_round_def)
  moreover have "all_good D2" if "visit_fd R i D1 = Some (Running D2)" "all_good D1" for i D1 D2
    using kept_visit_fd [OF that assms(3)] by simp
  ultimately have "case r of Running D' \<Rightarrow> all_good D' | _ \<Rightarrow> \<exists>j D1. all_good D1 \<and> visit_fd R j D1 = Some r"
    by (intro visit_keeps [where Q = all_good and R = R and tmp = tmp and i = 0 and D = ?D]) auto
  then show ?thesis
  proof (cases r)
    case (In_child job D')
    then obtain j D1 where "all_good D1" "visit_fd R j D1 = Some (In_child job D')"
      using \<open>case r of Running D' \<Rightarrow> _ D' | _ \<Rightarrow> _\<close> by auto
    from kept_visit_fd [OF this(2,1) assms(3)] In_child show ?thesis by auto
  qed auto
qed (use assms in \<open>auto simp: main_round_def\<close>)

end

section \<open>The two uses\<close>

definition timeouts_ok :: "connection \<Rightarrow> bool" where
  "timeouts_ok c \<longleftrightarrow> (\<forall>t. m_Timeout c = Some t \<longrightarrow> seconds_ok t)"

lemma timeouts_frame [simp]:
  "timeouts_ok (k\<lparr>m_Buf := b\<rparr>) = timeouts_ok k" "timeouts_ok (k\<lparr>m_pid := p\<rparr>) = timeouts_ok k"
  "timeouts_ok (k\<lparr>m_exitCode := x\<rparr>) = timeouts_ok k" "timeouts_ok (k\<lparr>m_hasExitCode := b1\<rparr>) = timeouts_ok k"
  "timeouts_ok (new_connection fd peer)" "timeouts_ok (k\<lparr>m_Host := h\<rparr>) = timeouts_ok k"
  "timeouts_ok (k\<lparr>m_Priority := n\<rparr>) = timeouts_ok k" "timeouts_ok (k\<lparr>m_Scheduler := n\<rparr>) = timeouts_ok k"
  "timeouts_ok (k\<lparr>m_needExitCode := True\<rparr>) = timeouts_ok k"
  "timeouts_ok (k\<lparr>m_Pass := q, m_Timeout := Some t\<rparr>) = seconds_ok t"
  by (simp_all add: timeouts_ok_def new_connection_def)

lemma run_timeouts:
  assumes "run_command E c S = Some (out, S')" "timeouts_ok (conn S)" "numbers_ok c"
  shows "timeouts_ok (conn S')"
  using assms
  by (cases c) (auto simp: answers run_exec_def forked_def sendExitCode_def Let_def split: prod.splits if_splits)

definition fresh_store :: "64 word \<Rightarrow> repository \<Rightarrow> bool" where
  "fresh_store now r \<longleftrightarrow> repo_inv r \<and> fresh now r"

lemma fresh_store_result:
  "remove k r = (ret, r') \<Longrightarrow> fresh_store now r \<Longrightarrow> fresh_store now r'"
  "removeGroup k r = (ret, r') \<Longrightarrow> fresh_store now r \<Longrightarrow> fresh_store now r'"
  "removeSpecialKey k r = (ret, r') \<Longrightarrow> fresh_store now r \<Longrightarrow> fresh_store now r'"
  using fresh_remove [of now r k] result_inv [of k r ret r'] by (auto simp: fresh_store_def)

lemma run_fresh:
  assumes "run_command E c S = Some (out, S')" "timeouts_ok (conn S)" "fresh_store now (store S)" "time_ok now E" "numbers_ok c"
  shows "fresh_store now (store S')"
proof (cases c)
  case (C_set n v g t)
  have "fresh_store now (fst (add (var_key n) \<lparr>entry_value = Some v, entry_group = g, entry_timeout = word_of_int t\<rparr>
      (env_time1 E) (store S)))"
    using assms(3-5) C_set by (simp add: fresh_store_def fresh_add [where t = t] add_inv var_key_def time_ok_def)
  then show ?thesis using assms(1) C_set by (auto simp: answer_def respond_def send_msg_def Let_def)
next
  case (C_exec cmd u opts env)
  have "fresh_store now (store_pass E h a d chk p t (store S))" if "m_Timeout (conn S) = Some t" for h a d chk p t
    using assms(2-4) that by (simp add: fresh_store_def fresh_store_pass store_pass_inv timeouts_ok_def)
  then show ?thesis
    using assms(1,3) C_exec by (auto simp: run_exec_def forked_def answers Let_def split: if_splits)
qed (use assms(1,3) in \<open>auto simp: answers sendExitCode_def Let_def split: prod.splits if_splits dest: fresh_store_result\<close>)

interpretation timed: kept timeouts_ok "fresh_store now" "time_ok now" for now
  by unfold_locales (auto dest: run_timeouts run_fresh)

interpretation plain: kept timeouts_ok repo_inv "\<lambda>E. True"
proof
  fix E c S out S'
  assume run: "run_command E c S = Some (out, S')" "timeouts_ok (conn S)" "repo_inv (store S)" "numbers_ok c"
  have "session_inv (S\<lparr>conn := (conn S)\<lparr>m_Pass := None\<rparr>\<rparr>)" using run(3) by (simp add: session_inv_def)
  show "timeouts_ok (conn S') \<and> repo_inv (store S')"
    using run run_timeouts [OF run(1,2,4)]
    by (cases c) (auto simp: answers run_exec_def forked_def sendExitCode_def Let_def add_inv store_pass_inv
        split: prod.splits if_splits dest: result_inv)
qed simp_all

lemma timed_repo_only: "plain.all_good D \<Longrightarrow> fresh now (d_repo D) \<Longrightarrow> timed.all_good now D"
  by (auto simp: plain.all_good_def timed.all_good_def fresh_store_def)

text \<open>The timeouts of all connections are in order in every state the daemon reaches.\<close>

interpretation dt: machine daemon_starts daemon_step plain.all_good
proof
  show "plain.all_good D" if "daemon_starts D" for D
    using that by (auto simp: daemon_starts_def plain.all_good_def start_daemon_def handler_at_def)
  show "plain.all_good D'" if "daemon_step D D'" "plain.all_good D" for D D'
  proof -
    from that(1) obtain R where R: "main_round R D = Some (Running D')" by (rule daemon_stepE)
    have "repo_inv (snd (expire (r_now R) (d_repo D)))"
      using that(2) by (simp add: plain.all_good_def expire_spec(3))
    with plain.kept_round [OF R that(2)] show ?thesis by simp
  qed
qed

section \<open>The password of a child\<close>

text \<open>
  The password is the one of the connection, or one that is stored for the host, user and command
  of the job and has not expired.
\<close>

definition good_password :: "64 word \<Rightarrow> child_job \<Rightarrow> connection \<Rightarrow> repository \<Rightarrow> bool" where
  "good_password now job c r \<longleftrightarrow> job_pass job = m_Pass c \<or>
     (\<exists>e. repo_map r (makeKey 0 (m_Host c) (auth_user c (m_user (job_proc job))) (m_command (job_proc job))) = Some e \<and>
        entry_value e = job_pass job \<and> unsigned_time now < entry_timeout e)"

lemma started_password:
  assumes "started job S0 S'" and "fresh_store now (store S0)"
  shows "good_password now job (conn S') (store S')"
proof -
  from assms(1) obtain E cmd u opts env where run: "run_exec E cmd u opts env S0 = Some (Child job, S')"
    unfolding started_def
  proof (elim exE)
    fix E c
    assume "run_command E c S0 = Some (Child job, S')"
    then show ?thesis
      by (cases c) (auto simp: answers sendExitCode_def Let_def intro: that split: prod.splits)
  qed
  let ?c = "conn S0" and ?a = "auth_user (conn S0) u"
  let ?pass = "stored_pass (store S0) (m_Host ?c) ?a cmd (env_check_of env)"
  show ?thesis
  proof (cases "isNull ?pass")
    case True
    then have "job_pass job = m_Pass ?c" "conn S' = ?c"
      using run by (auto simp: run_exec_def forked_def exec_job_def answers Let_def split: if_splits)
    then show ?thesis by (simp add: good_password_def)
  next
    case False
    then have S': "S' = S0" "job = exec_job ?c cmd u opts env ?pass"
      using run by (auto simp: run_exec_def forked_def answers Let_def split: if_splits)
    then have j: "job_pass job = ?pass" "m_user (job_proc job) = u" "m_command (job_proc job) = cmd"
      by (auto simp: exec_job_def process_setup Let_def)
    have "?pass = find (makeKey 0 (m_Host ?c) ?a cmd) (store S0)" using False by (auto simp: stored_pass_def split: if_splits)
    then obtain e where e: "repo_map (store S0) (makeKey 0 (m_Host ?c) ?a cmd) = Some e" "entry_value e = ?pass"
      using False by (auto simp: find_repo_map isNull_def split: Option.bind_splits)
    then have "(makeKey 0 (m_Host ?c) ?a cmd, e) \<in> set (repo (store S0))"
      using qmap_find_iff [OF repo_inv_map] assms(2) by (simp add: repo_map_def fresh_store_def)
    then have "unsigned_time now < entry_timeout e" using assms(2) by (force simp: fresh_store_def fresh_def)
    then show ?thesis using S'(1) j e by (simp add: good_password_def)
  qed
qed

lemma round_passwords:
  assumes "plain.all_good D" and "r_select R = Ready tmp" and "\<And>i j. time_ok (r_now R) (r_cmd R i j)"
    and "main_round R D = Some r"
  shows "case r of Running D' \<Rightarrow> fresh (r_now R) (d_repo D')
    | In_child job D' \<Rightarrow> \<exists>i c. handler_at D' i = Some c \<and> good_password (r_now R) job c (d_repo D')
    | Stopped n D' \<Rightarrow> True"
proof -
  let ?D = "D\<lparr>d_repo := snd (expire (r_now R) (d_repo D))\<rparr>"
  let ?R = "R\<lparr>r_select := Ready tmp\<rparr>"
  have inv: "repo_inv (d_repo D)" using assms(1) by (simp add: plain.all_good_def)
  have fresh: "fresh_store (r_now R) (d_repo ?D)" using inv by (simp add: fresh_store_def expire_spec(3) fresh_expire)
  have good: "timed.all_good (r_now R) ?D"
    using fresh assms(1) by (simp add: timed.all_good_def plain.all_good_def new_repo_frame)
  have v: "visit R tmp 0 ?D = Some r" using assms(2,4) by (simp add: main_round_def)
  have "timed.all_good (r_now R) D2" if "visit_fd R i D1 = Some (Running D2)" "timed.all_good (r_now R) D1" for i D1 D2
    using timed.kept_visit_fd [OF that assms(3)] by simp
  then have "case r of Running D' \<Rightarrow> timed.all_good (r_now R) D'
      | _ \<Rightarrow> \<exists>j D1. timed.all_good (r_now R) D1 \<and> visit_fd R j D1 = Some r"
    by (intro visit_keeps [where Q = "timed.all_good (r_now R)", OF _ v good]) blast
  then show ?thesis
  proof (cases r)
    case (In_child job D')
    then obtain j D1 where "timed.all_good (r_now R) D1" "visit_fd R j D1 = Some (In_child job D')"
      using \<open>case r of Running D' \<Rightarrow> _ D' | _ \<Rightarrow> _\<close> by auto
    from timed.kept_visit_fd [OF this(2,1) assms(3)] obtain S0 S' where
      "handler_at D' j = Some (conn S')" "store S' = d_repo D'" "started job S0 S'" "fresh_store (r_now R) (store S0)"
      by auto
    with started_password [of job S0 S' "r_now R"] In_child show ?thesis by auto
  qed (auto simp: timed.all_good_def fresh_store_def)
qed

end
