(* ===== verification/StubMain.thy ===== *)
theory StubMain
  imports Stub Environ
begin

text \<open>
  The rest of the program \<^verbatim>\<open>src/src/kdesu_stub.c\<close>, from where it has its parameters and the
  environment: setting variables, looking up the user, scheduling, dropping privileges,
  the X cookie, and running the command in a child while the parent waits. Each section of
  \<^verbatim>\<open>main()\<close> is a definition of its own; a step that leaves the program early returns the exit
  status on the left.

  \<open>creds\<close> are the user and group numbers of the process, changed by the three calls as the
  kernel documents them; \<open>stub_sys\<close> is what the system answers, \<open>stub_state\<close> what the program
  changes. The lemmas show which credentials and variables the command runs with, that it does
  not run when privileges could not be dropped, and that its exit status is passed on.
\<close>

section \<open>Credentials\<close>

record creds =
  cr_ruid :: "32 word"
  cr_euid :: "32 word"
  cr_suid :: "32 word"
  cr_rgid :: "32 word"
  cr_egid :: "32 word"
  cr_sgid :: "32 word"
  cr_groups :: "32 word list"

definition sys_setgid :: "32 word \<Rightarrow> creds \<Rightarrow> creds option" where
  "sys_setgid g c =
     (if cr_euid c = 0 then Some (c\<lparr>cr_rgid := g, cr_egid := g, cr_sgid := g\<rparr>)
      else if g = cr_rgid c \<or> g = cr_sgid c then Some (c\<lparr>cr_egid := g\<rparr>)
      else None)"

definition sys_initgroups :: "32 word list \<Rightarrow> creds \<Rightarrow> creds option" where
  "sys_initgroups gs c = (if cr_euid c = 0 then Some (c\<lparr>cr_groups := gs\<rparr>) else None)"

definition sys_setuid :: "32 word \<Rightarrow> creds \<Rightarrow> creds option" where
  "sys_setuid u c =
     (if cr_euid c = 0 then Some (c\<lparr>cr_ruid := u, cr_euid := u, cr_suid := u\<rparr>)
      else if u = cr_ruid c \<or> u = cr_suid c then Some (c\<lparr>cr_euid := u\<rparr>)
      else None)"

record passwd =
  pw_name :: bytes
  pw_uid :: "32 word"
  pw_gid :: "32 word"
  pw_dir :: bytes

section \<open>State and surroundings\<close>

datatype drop_call = Call_setgid | Call_initgroups | Call_setuid

text \<open>The answers of \<^verbatim>\<open>waitpid\<close> in the parent.\<close>

datatype stub_wait = Sw_EINTR | Sw_error | Sw_state int

text \<open>
  \<open>y_refuses\<close> are calls that fail for a reason of the system's own; \<open>y_fifo\<close> are the bounds of
  the realtime priorities, \<^const>\<open>None\<close> without \<^verbatim>\<open>POSIX1B_SCHEDULING\<close>; \<open>y_mkstemp\<close> is the name of
  the file made, \<^const>\<open>None\<close> for a failure.
\<close>

record stub_sys =
  y_getpwnam :: "bytes \<Rightarrow> passwd option"
  y_grouplist :: "bytes \<Rightarrow> 32 word \<Rightarrow> 32 word list"
  y_refuses :: "drop_call \<Rightarrow> bool"
  y_fifo :: "(int \<times> int) option"
  y_setpriority :: bool
  y_initgroups :: bool
  y_mkstemp :: "bytes option"
  y_popen :: bool
  y_fork :: int
  y_waits :: "stub_wait list"

text \<open>
  \<open>v_files\<close> are the temporary files that exist, with the umask they were made under; \<open>v_ran\<close>
  the programs run through the shell on the way, with the credentials they got and what was
  written to them.
\<close>

record stub_state =
  v_env :: environ
  v_cred :: creds
  v_umask :: nat
  v_nice :: "int option"
  v_fifo :: "int option"
  v_print :: "bytes list"
  v_xauthority :: bytes
  v_files :: "(bytes \<times> nat) list"
  v_ran :: "(bytes \<times> creds \<times> bytes) list"

type_synonym stub_step = "(int \<times> stub_state) + stub_state"

abbreviation then_do :: "stub_step \<Rightarrow> (stub_state \<Rightarrow> stub_step) \<Rightarrow> stub_step" where
  "then_do r f \<equiv> (case r of Inl e \<Rightarrow> Inl e | Inr v \<Rightarrow> f v)"

section \<open>The sections of main()\<close>

definition stub_set_variables :: "bytes list \<Rightarrow> stub_state \<Rightarrow> stub_state" where
  "stub_set_variables vals v =
     (let env = v_env v;
          env = xsetenv ''PATH'' (vals ! 4) env;
          env = xsetenv ''DESKTOP_STARTUP_ID'' (vals ! 9) env;
          env = (case env ''KDESU_LC_ALL'' of
                   Some lc \<Rightarrow> xsetenv ''LC_ALL'' lc env
                 | None \<Rightarrow> unsetenv ''LC_ALL'' env);
          env = unsetenv ''XDG_RUNTIME_DIR'' env
      in v\<lparr>v_env := env\<rparr>)"

definition stub_find_user :: "stub_sys \<Rightarrow> bytes list \<Rightarrow> stub_state \<Rightarrow> (int \<times> stub_state) + (passwd \<times> stub_state)" where
  "stub_find_user Y vals v =
     (case y_getpwnam Y (vals ! 6) of
        None \<Rightarrow> Inl (1, v\<lparr>v_print := v_print v @ [''kdesu_stub: user '' @ vals ! 6 @ '' does not exist!'' @ [NL]]\<rparr>)
      | Some pw \<Rightarrow>
          (let env = xsetenv ''HOME'' (pw_dir pw) (v_env v)
           in Inr (pw, v\<lparr>v_env := unsetenv ''DBUS_SESSION_BUS_ADDRESS'' env\<rparr>)))"

text \<open>
  The realtime priority, \<^verbatim>\<open>min + (int)(prio * (max - min) / 100.0 + 0.5)\<close>, computed in the same
  way as \<^const>\<open>stub_nice\<close>.
\<close>

definition stub_rt_priority :: "int \<Rightarrow> int \<Rightarrow> int \<Rightarrow> int" where
  "stub_rt_priority lo hi prio = lo + trunc_div (prio * (hi - lo) + 50) 100"

definition stub_schedule :: "stub_sys \<Rightarrow> bytes list \<Rightarrow> stub_state \<Rightarrow> stub_state" where
  "stub_schedule Y vals v =
     (let prio = atoi (vals ! 7) in
      if vals ! 8 = ''realtime'' then
        (case y_fifo Y of
           Some (lo, hi) \<Rightarrow> v\<lparr>v_fifo := Some (stub_rt_priority lo hi prio)\<rparr>
         | None \<Rightarrow> v\<lparr>v_print := v_print v @ [''kdesu_stub: realtime scheduling not supported'' @ [NL]]\<rparr>)
      else if y_setpriority Y then v\<lparr>v_nice := Some (stub_nice prio)\<rparr>
      else v)"

text \<open>One of the calls that drop privileges; any failure leaves with status 1.\<close>

definition drop_step :: "stub_sys \<Rightarrow> drop_call \<Rightarrow> (creds \<Rightarrow> creds option) \<Rightarrow> stub_state \<Rightarrow> stub_step" where
  "drop_step Y call f v =
     (if y_refuses Y call then Inl (1, v)
      else case f (v_cred v) of None \<Rightarrow> Inl (1, v) | Some c \<Rightarrow> Inr (v\<lparr>v_cred := c\<rparr>))"

definition stub_drop :: "stub_sys \<Rightarrow> passwd \<Rightarrow> stub_state \<Rightarrow> stub_step" where
  "stub_drop Y pw v =
     (if cr_ruid (v_cred v) \<noteq> pw_uid pw then
        then_do (drop_step Y Call_setgid (sys_setgid (pw_gid pw)) v)
          (\<lambda>v. then_do (if y_initgroups Y
                        then drop_step Y Call_initgroups (sys_initgroups (y_grouplist Y (pw_name pw) (pw_gid pw))) v
                        else Inr v)
          (\<lambda>v. then_do (drop_step Y Call_setuid (sys_setuid (pw_uid pw)) v)
          (\<lambda>v. Inr (v\<lparr>v_env := xsetenv ''HOME'' (pw_dir pw) (v_env v)\<rparr>))))
      else Inr v)"

text \<open>A program run through the shell.\<close>

definition run_program :: "bytes \<Rightarrow> bytes \<Rightarrow> stub_state \<Rightarrow> stub_state" where
  "run_program prog input v = v\<lparr>v_ran := v_ran v @ [(prog, v_cred v, input)]\<rparr>"

definition add_display :: "bytes \<Rightarrow> bytes" where
  "add_display display = (let disp = display in if take 10 disp = ''localhost:'' then drop 9 disp else disp)"

definition stub_cookie :: "stub_sys \<Rightarrow> bytes list \<Rightarrow> stub_state \<Rightarrow> stub_step" where
  "stub_cookie Y vals v =
     (let oldumask = v_umask v;
          v = v\<lparr>v_umask := 63\<rparr>;
          disp = add_display (vals ! 1);
          v = v\<lparr>v_xauthority := ''/tmp/xauth.XXXXXXXXXX''\<rparr>
      in case y_mkstemp Y of
           None \<Rightarrow> Inl (1, v\<lparr>v_umask := oldumask\<rparr>)
         | Some file \<Rightarrow>
             (let v = v\<lparr>v_files := v_files v @ [(file, v_umask v)], v_xauthority := file\<rparr>;
                  v = v\<lparr>v_umask := oldumask\<rparr>;
                  v = v\<lparr>v_env := xsetenv ''XAUTHORITY'' (v_xauthority v) (v_env v)\<rparr>
              in if \<not> y_popen Y then Inl (1, v)
                 else Inr (run_program ''xauth >/dev/null 2>&1''
                   (''add '' @ disp @ '' '' @ vals ! 2 @ [NL]) v)))"

definition stub_display :: "stub_sys \<Rightarrow> bytes list \<Rightarrow> stub_state \<Rightarrow> stub_step" where
  "stub_display Y vals v =
     (if vals ! 1 \<noteq> ''no'' then
        let v = v\<lparr>v_env := xsetenv ''DISPLAY'' (vals ! 1) (v_env v)\<rparr>
        in if vals ! 2 \<noteq> [] then stub_cookie Y vals v else Inr v
      else Inr v)"

definition stub_kdeinit :: "bytes list \<Rightarrow> stub_state \<Rightarrow> stub_state" where
  "stub_kdeinit vals v = (if vals ! 5 \<noteq> ''no'' then run_program ''kdeinit5 --suicide'' [] v else v)"

text \<open>The parent: \<^const>\<open>None\<close> if the answers end while it still waits.\<close>

fun stub_wait_loop :: "int \<Rightarrow> stub_wait list \<Rightarrow> int option" where
  "stub_wait_loop xit [] = None"
| "stub_wait_loop xit (Sw_EINTR # ws) = stub_wait_loop xit ws"
| "stub_wait_loop xit (Sw_error # ws) = Some xit"
| "stub_wait_loop xit (Sw_state state # ws) =
     stub_wait_loop (if WIFEXITED state then WEXITSTATUS state else xit) ws"

definition stub_cleanup :: "stub_state \<Rightarrow> stub_state" where
  "stub_cleanup v =
     (if v_xauthority v \<noteq> [] then v\<lparr>v_files := filter (\<lambda>f. fst f \<noteq> v_xauthority v) (v_files v)\<rparr> else v)"

text \<open>How the program ends: with an exit status, or as the shell that runs a command.\<close>

datatype stub_end = Stub_exit int | Stub_shell bytes

definition stub_run :: "stub_sys \<Rightarrow> bytes list \<Rightarrow> stub_state \<Rightarrow> (stub_end \<times> stub_state) option" where
  "stub_run Y vals v =
     (if y_fork Y = -1 then Some (Stub_exit 1, v)
      else if y_fork Y \<noteq> 0 then
        map_option (\<lambda>xit. (Stub_exit xit, stub_cleanup v)) (stub_wait_loop 1 (y_waits Y))
      else Some (Stub_shell (stub_command vals), v))"

definition stub_main :: "stub_sys \<Rightarrow> bytes list \<Rightarrow> stub_state \<Rightarrow> (stub_end \<times> stub_state) option" where
  "stub_main Y vals v =
     (case stub_find_user Y vals (stub_set_variables vals v) of
        Inl (status, v) \<Rightarrow> Some (Stub_exit status, v)
      | Inr (pw, v) \<Rightarrow>
          (case then_do (stub_drop Y pw (stub_schedule Y vals v)) (stub_display Y vals) of
             Inl (status, v) \<Rightarrow> Some (Stub_exit status, v)
           | Inr v \<Rightarrow> stub_run Y vals (stub_kdeinit vals v)))"

text \<open>The whole program, on the bytes it reads.\<close>

definition kdesu_stub :: "stub_sys \<Rightarrow> bytes \<Rightarrow> stub_state \<Rightarrow> (stub_end \<times> stub_state) option" where
  "kdesu_stub Y stdin v =
     (case stub_read stdin of
        Inl status \<Rightarrow> Some (Stub_exit status, v)
      | Inr (vals, env, rest) \<Rightarrow> stub_main Y vals (v\<lparr>v_env := fold putenv env (v_env v)\<rparr>))"

section \<open>Credentials of the command\<close>

definition all_uids :: "32 word \<Rightarrow> creds \<Rightarrow> bool" where
  "all_uids u c \<longleftrightarrow> cr_ruid c = u \<and> cr_euid c = u \<and> cr_suid c = u"

definition all_gids :: "32 word \<Rightarrow> creds \<Rightarrow> bool" where
  "all_gids g c \<longleftrightarrow> cr_rgid c = g \<and> cr_egid c = g \<and> cr_sgid c = g"

lemma stub_drop_result:
  assumes "all_uids 0 (v_cred v)" and "stub_drop Y pw v = Inr v'"
  shows "all_uids (pw_uid pw) (v_cred v') \<and> v_ran v' = v_ran v \<and> v_files v' = v_files v \<and>
    v_xauthority v' = v_xauthority v \<and>
    (pw_uid pw \<noteq> 0 \<longrightarrow> all_gids (pw_gid pw) (v_cred v') \<and> \<not> y_refuses Y Call_setgid \<and> \<not> y_refuses Y Call_setuid \<and>
       (y_initgroups Y \<longrightarrow> \<not> y_refuses Y Call_initgroups \<and> cr_groups (v_cred v') = y_grouplist Y (pw_name pw) (pw_gid pw)))"
  using assms
  by (auto simp: stub_drop_def drop_step_def all_uids_def all_gids_def sys_setgid_def sys_initgroups_def sys_setuid_def
      split: sum.splits if_splits)

lemma stub_drop_env: "stub_drop Y pw v = Inr v' \<Longrightarrow> v_env v' = v_env v \<or> v_env v' = xsetenv ''HOME'' (pw_dir pw) (v_env v)"
  by (auto simp: stub_drop_def drop_step_def split: sum.splits option.splits if_splits)

lemma stub_find_user_result:
  "stub_find_user Y vals v = Inr (pw, v') \<Longrightarrow>
     y_getpwnam Y (vals ! 6) = Some pw \<and>
     v' = v\<lparr>v_env := unsetenv ''DBUS_SESSION_BUS_ADDRESS'' (xsetenv ''HOME'' (pw_dir pw) (v_env v))\<rparr>"
  by (auto simp: stub_find_user_def split: option.splits)

lemma stub_schedule_frame [simp]:
  "v_cred (stub_schedule Y vals v) = v_cred v" "v_ran (stub_schedule Y vals v) = v_ran v"
  "v_env (stub_schedule Y vals v) = v_env v" "v_files (stub_schedule Y vals v) = v_files v"
  "v_xauthority (stub_schedule Y vals v) = v_xauthority v"
  by (simp_all add: stub_schedule_def Let_def split: option.split prod.split)

lemma stub_set_variables_frame [simp]:
  "v_cred (stub_set_variables vals v) = v_cred v" "v_ran (stub_set_variables vals v) = v_ran v"
  "v_files (stub_set_variables vals v) = v_files v" "v_xauthority (stub_set_variables vals v) = v_xauthority v"
  by (simp_all add: stub_set_variables_def Let_def)

text \<open>What is run on the way, with which credentials; a file is made exactly if there is a cookie.\<close>

lemma stub_display_result:
  assumes "stub_display Y vals v = Inr v'"
  shows "v_cred v' = v_cred v \<and>
    (\<exists>progs. v_ran v' = v_ran v @ progs \<and> (\<forall>p \<in> set progs. fst (snd p) = v_cred v)) \<and>
    ((v_xauthority v' = v_xauthority v \<and> v_files v' = v_files v) \<or>
     (v_files v' = v_files v @ [(v_xauthority v', 63)] \<and> y_mkstemp Y = Some (v_xauthority v')))"
  using assms
  by (auto simp: stub_display_def stub_cookie_def run_program_def Let_def split: if_splits option.splits)

lemma stub_kdeinit_frame [simp]:
  "v_cred (stub_kdeinit vals v) = v_cred v" "v_env (stub_kdeinit vals v) = v_env v"
  "v_files (stub_kdeinit vals v) = v_files v" "v_xauthority (stub_kdeinit vals v) = v_xauthority v"
  by (simp_all add: stub_kdeinit_def run_program_def)

lemma stub_kdeinit_ran: "\<exists>progs. v_ran (stub_kdeinit vals v) = v_ran v @ progs \<and> (\<forall>p \<in> set progs. fst (snd p) = v_cred v)"
  by (simp add: stub_kdeinit_def run_program_def)

text \<open>
  The stages of a run that gets as far as starting the command: after the user is known,
  after the drop, after the display.
\<close>

lemma stub_main_stages:
  assumes "stub_main Y vals v = Some (e, v')" and "e \<noteq> Stub_exit 1"
  obtains pw v1 v2 where "y_getpwnam Y (vals ! 6) = Some pw"
    and "stub_drop Y pw (stub_schedule Y vals ((stub_set_variables vals v)\<lparr>v_env :=
           unsetenv ''DBUS_SESSION_BUS_ADDRESS'' (xsetenv ''HOME'' (pw_dir pw) (v_env (stub_set_variables vals v)))\<rparr>)) = Inr v1"
    and "stub_display Y vals v1 = Inr v2" and "stub_run Y vals (stub_kdeinit vals v2) = Some (e, v')"
proof -
  have one: "stub_find_user Y vals v = Inl (s, w) \<Longrightarrow> s = 1" for v s w
    by (auto simp: stub_find_user_def Let_def split: option.splits)
  have two: "stub_drop Y pw v = Inl (s, w) \<Longrightarrow> s = 1" for pw v s w
    by (auto simp: stub_drop_def drop_step_def split: sum.splits option.splits if_splits)
  have three: "stub_display Y vals v = Inl (s, w) \<Longrightarrow> s = 1" for v s w
    by (auto simp: stub_display_def stub_cookie_def Let_def split: option.splits if_splits)
  from assms one obtain pw w where f: "stub_find_user Y vals (stub_set_variables vals v) = Inr (pw, w)"
    by (auto simp: stub_main_def split: sum.splits prod.splits)
  from assms f two obtain v1 where d: "stub_drop Y pw (stub_schedule Y vals w) = Inr v1"
    by (auto simp: stub_main_def split: sum.splits prod.splits)
  from assms f d three obtain v2 where s: "stub_display Y vals v1 = Inr v2"
    by (auto simp: stub_main_def split: sum.splits prod.splits)
  have "stub_run Y vals (stub_kdeinit vals v2) = Some (e, v')" using assms(1) f d s by (simp add: stub_main_def)
  then show ?thesis using that f d s stub_find_user_result [OF f] by blast
qed

section \<open>Variables of the command\<close>

lemma set_variables_env:
  "v_env (stub_set_variables vals v) n =
     (if n = ''PATH'' then Some (c_str (vals ! 4))
      else if n = ''DESKTOP_STARTUP_ID'' then Some (c_str (vals ! 9))
      else if n = ''LC_ALL'' then map_option c_str (v_env v ''KDESU_LC_ALL'')
      else if n = ''XDG_RUNTIME_DIR'' then None
      else v_env v n)"
  by (simp add: stub_set_variables_def Let_def xsetenv_eq unsetenv_def split: option.split)

lemma stub_display_env:
  assumes "stub_display Y vals v = Inr v'"
  shows "n \<notin> {''DISPLAY'', ''XAUTHORITY''} \<Longrightarrow> v_env v' n = v_env v n"
    and "vals ! 1 \<noteq> ''no'' \<Longrightarrow> v_env v' ''DISPLAY'' = Some (c_str (vals ! 1))"
  using assms
  by (auto simp: stub_display_def stub_cookie_def run_program_def Let_def xsetenv_eq split: if_splits option.splits)

lemma stub_shell_env:
  assumes "stub_main Y vals v = Some (Stub_shell cmd, v')"
  shows "\<exists>pw. y_getpwnam Y (vals ! 6) = Some pw \<and> cmd = stub_command vals \<and>
    v_env v' ''HOME'' = Some (c_str (pw_dir pw)) \<and> v_env v' ''DBUS_SESSION_BUS_ADDRESS'' = None \<and>
    (vals ! 1 \<noteq> ''no'' \<longrightarrow> v_env v' ''DISPLAY'' = Some (c_str (vals ! 1))) \<and>
    (\<forall>n. n \<notin> {''HOME'', ''DBUS_SESSION_BUS_ADDRESS'', ''DISPLAY'', ''XAUTHORITY''} \<longrightarrow>
       v_env v' n = v_env (stub_set_variables vals v) n)"
proof -
  from assms obtain pw v1 v2 where pw: "y_getpwnam Y (vals ! 6) = Some pw"
    and d: "stub_drop Y pw (stub_schedule Y vals ((stub_set_variables vals v)\<lparr>v_env :=
           unsetenv ''DBUS_SESSION_BUS_ADDRESS'' (xsetenv ''HOME'' (pw_dir pw) (v_env (stub_set_variables vals v)))\<rparr>)) = Inr v1"
    and s: "stub_display Y vals v1 = Inr v2" and r: "stub_run Y vals (stub_kdeinit vals v2) = Some (Stub_shell cmd, v')"
    by (rule stub_main_stages) simp
  have v': "cmd = stub_command vals" "v_env v' = v_env v2" using r by (auto simp: stub_run_def split: if_splits)
  have "v_env v1 n = (if n = ''HOME'' then Some (c_str (pw_dir pw)) else if n = ''DBUS_SESSION_BUS_ADDRESS'' then None
      else v_env (stub_set_variables vals v) n)" for n
    using stub_drop_env [OF d] by (auto simp: xsetenv_eq unsetenv_def)
  then show ?thesis using pw v' stub_display_env [OF s] by (intro exI [of _ pw]) simp
qed

section \<open>The end of the program\<close>

lemma stub_shell_creds:
  assumes "all_uids 0 (v_cred v)" and "v_ran v = []" and "stub_main Y vals v = Some (Stub_shell cmd, v')"
  shows "\<exists>pw. y_getpwnam Y (vals ! 6) = Some pw \<and> all_uids (pw_uid pw) (v_cred v') \<and>
    (pw_uid pw \<noteq> 0 \<longrightarrow> all_gids (pw_gid pw) (v_cred v') \<and> \<not> y_refuses Y Call_setgid \<and> \<not> y_refuses Y Call_setuid \<and>
       (y_initgroups Y \<longrightarrow> \<not> y_refuses Y Call_initgroups \<and> cr_groups (v_cred v') = y_grouplist Y (pw_name pw) (pw_gid pw))) \<and>
    (\<forall>p \<in> set (v_ran v'). fst (snd p) = v_cred v')"
proof -
  from assms(3) obtain pw v1 v2 where pw: "y_getpwnam Y (vals ! 6) = Some pw"
    and d: "stub_drop Y pw (stub_schedule Y vals ((stub_set_variables vals v)\<lparr>v_env :=
           unsetenv ''DBUS_SESSION_BUS_ADDRESS'' (xsetenv ''HOME'' (pw_dir pw) (v_env (stub_set_variables vals v)))\<rparr>)) = Inr v1"
    and s: "stub_display Y vals v1 = Inr v2" and r: "stub_run Y vals (stub_kdeinit vals v2) = Some (Stub_shell cmd, v')"
    by (rule stub_main_stages) simp
  have v': "v' = stub_kdeinit vals v2" using r by (auto simp: stub_run_def split: if_splits)
  note drop = stub_drop_result [OF _ d, simplified, OF assms(1)]
  obtain ps where ps: "v_ran v2 = ps" "\<forall>p \<in> set ps. fst (snd p) = v_cred v1" "v_cred v2 = v_cred v1"
    using stub_display_result [OF s] drop assms(2) by auto
  obtain qs where "v_ran v' = v_ran v2 @ qs" "\<forall>p \<in> set qs. fst (snd p) = v_cred v2"
    using stub_kdeinit_ran [of vals v2] v' by blast
  then have "\<forall>p \<in> set (v_ran v'). fst (snd p) = v_cred v'" using ps v' by (simp only: set_append ball_Un stub_kdeinit_frame)
  then show ?thesis using pw drop ps(3) by (auto simp: v')
qed

text \<open>When no call fails the program gets to the shell.\<close>

lemma stub_reaches_shell:
  assumes "y_getpwnam Y (vals ! 6) = Some pw" and "all_uids 0 (v_cred v)" and "\<And>c. \<not> y_refuses Y c"
    and "y_mkstemp Y = Some f" and "y_popen Y" and "y_fork Y = 0"
  shows "\<exists>v'. stub_main Y vals v = Some (Stub_shell (stub_command vals), v')"
proof -
  obtain w where u: "stub_find_user Y vals (stub_set_variables vals v) = Inr (pw, w)" "v_cred w = v_cred v"
    using assms(1) by (simp add: stub_find_user_def Let_def)
  have euid: "cr_euid (v_cred (stub_schedule Y vals w)) = 0" using assms(2) u(2) by (simp add: all_uids_def)
  have step: "f (v_cred x) = Some c \<Longrightarrow> drop_step Y call f x = Inr (x\<lparr>v_cred := c\<rparr>)" for f x c call
    using assms(3) by (simp add: drop_step_def)
  have "\<exists>v1. stub_drop Y pw (stub_schedule Y vals w) = Inr v1"
    using euid by (cases "y_initgroups Y"; cases "cr_ruid (v_cred w) = pw_uid pw")
      (simp_all add: stub_drop_def step sys_setgid_def sys_initgroups_def sys_setuid_def)
  then obtain v1 where d: "stub_drop Y pw (stub_schedule Y vals w) = Inr v1" ..
  have "\<exists>v2. stub_display Y vals v1 = Inr v2"
    using assms(4,5) by (cases "vals ! 1 = ''no''"; cases "vals ! 2 = []") (simp_all add: stub_display_def stub_cookie_def Let_def)
  then obtain v2 where s: "stub_display Y vals v1 = Inr v2" ..
  show ?thesis using u(1) d s assms(6) by (simp add: stub_main_def stub_run_def)
qed

text \<open>Whether the program forks into parent or child is decided only at the end.\<close>

lemma stub_steps_fork [simp]:
  "stub_find_user (Y\<lparr>y_fork := n\<rparr>) = stub_find_user Y" "stub_schedule (Y\<lparr>y_fork := n\<rparr>) = stub_schedule Y"
  "stub_drop (Y\<lparr>y_fork := n\<rparr>) = stub_drop Y" "stub_display (Y\<lparr>y_fork := n\<rparr>) = stub_display Y"
proof -
  have sel: "y_getpwnam (Y\<lparr>y_fork := n\<rparr>) = y_getpwnam Y" "y_fifo (Y\<lparr>y_fork := n\<rparr>) = y_fifo Y"
    "y_setpriority (Y\<lparr>y_fork := n\<rparr>) = y_setpriority Y" "y_refuses (Y\<lparr>y_fork := n\<rparr>) = y_refuses Y"
    "y_initgroups (Y\<lparr>y_fork := n\<rparr>) = y_initgroups Y" "y_grouplist (Y\<lparr>y_fork := n\<rparr>) = y_grouplist Y"
    "y_mkstemp (Y\<lparr>y_fork := n\<rparr>) = y_mkstemp Y" "y_popen (Y\<lparr>y_fork := n\<rparr>) = y_popen Y" by simp_all
  show "stub_find_user (Y\<lparr>y_fork := n\<rparr>) = stub_find_user Y" "stub_schedule (Y\<lparr>y_fork := n\<rparr>) = stub_schedule Y"
    "stub_drop (Y\<lparr>y_fork := n\<rparr>) = stub_drop Y" "stub_display (Y\<lparr>y_fork := n\<rparr>) = stub_display Y"
    by (intro ext; unfold stub_find_user_def stub_schedule_def stub_drop_def drop_step_def stub_display_def
        stub_cookie_def sel; rule refl)+
qed

lemma stub_wait_loop_result:
  "stub_wait_loop xit (replicate k Sw_EINTR @ [Sw_state st, Sw_error]) =
     Some (if WIFEXITED st then WEXITSTATUS st else xit)"
  by (induction k) simp_all

text \<open>The parent's side of a run in which the child became the shell.\<close>

lemma stub_parent:
  assumes "stub_main (Y\<lparr>y_fork := 0\<rparr>) vals v = Some (Stub_shell cmd, v1)" and "0 < n"
    and "v_xauthority v = []" and "\<forall>f. y_mkstemp Y = Some f \<longrightarrow> f \<noteq> [] \<and> f \<notin> fst ` set (v_files v)"
    and "y_waits Y = replicate k Sw_EINTR @ [Sw_state st, Sw_error]"
  shows "\<exists>v2. stub_main (Y\<lparr>y_fork := n\<rparr>) vals v = Some (Stub_exit (if WIFEXITED st then WEXITSTATUS st else 1), v2) \<and>
    v_files v2 = v_files v"
proof -
  from assms(1) obtain pw v1' w where f: "stub_find_user Y vals (stub_set_variables vals v) = Inr (pw, v1')"
    and w: "then_do (stub_drop Y pw (stub_schedule Y vals v1')) (stub_display Y vals) = Inr w"
    by (auto simp: stub_main_def split: sum.splits prod.splits)
  then obtain v2 where d: "stub_drop Y pw (stub_schedule Y vals v1') = Inr v2" and s: "stub_display Y vals v2 = Inr w"
    by (auto split: sum.splits)
  have "stub_main (Y\<lparr>y_fork := n\<rparr>) vals v = stub_run (Y\<lparr>y_fork := n\<rparr>) vals (stub_kdeinit vals w)"
    unfolding stub_main_def stub_steps_fork using f w by simp
  also have "\<dots> = Some (Stub_exit (if WIFEXITED st then WEXITSTATUS st else 1), stub_cleanup (stub_kdeinit vals w))"
    using assms(2,5) by (simp add: stub_run_def stub_wait_loop_result)
  moreover have keep: "v_files v2 = v_files v" "v_xauthority v2 = []"
    using d assms(3) stub_find_user_result [OF f]
    by (auto simp: stub_drop_def drop_step_def split: sum.splits option.splits if_splits)
  have "v_files (stub_cleanup (stub_kdeinit vals w)) = v_files v"
    using stub_display_result [OF s] keep assms(4)
    by (force simp: stub_cleanup_def filter_id_conv image_iff)
  ultimately show ?thesis by auto
qed

end
