(* ===== verification/Launch.thy ===== *)
theory Launch
  imports Pty Environ
begin

text \<open>
  Starting the child behind the pseudo terminal: \<^verbatim>\<open>PtyProcess::init\<close>, \<^verbatim>\<open>exec\<close> and \<^verbatim>\<open>setupTTY\<close>
  of \<^verbatim>\<open>src/src/ptyprocess.cpp\<close>. \<open>child_state\<close> is what the child takes over and changes: its
  signal dispositions, descriptors and environment, its terminal. \<open>launch_env\<close> is what the
  system answers. The lemmas show what is left of these when the program is executed: the
  descriptors are the terminal only, as long as the limit on descriptors is one the loop over
  them can count to.
\<close>

section \<open>What a child has\<close>

datatype disposition = Sig_default | Sig_ignored | Sig_handler nat

datatype fd_file = Tty_slave | Other_file nat

type_synonym fd_table = "nat \<rightharpoonup> fd_file"

record child_state =
  ch_signals :: "int \<Rightarrow> disposition"
  ch_fds :: fd_table
  ch_env :: environ
  ch_ctty :: bool
  ch_opost :: bool

definition sys_dup2 :: "nat \<Rightarrow> nat \<Rightarrow> fd_table \<Rightarrow> fd_table" where
  "sys_dup2 old new t = (case t old of None \<Rightarrow> t | Some f \<Rightarrow> t(new \<mapsto> f))"

definition sys_close :: "nat \<Rightarrow> fd_table \<Rightarrow> fd_table" where
  "sys_close i t = t(i := None)"

section \<open>setupTTY\<close>

definition SIGHUP :: int where "SIGHUP = 1"
definition NSIG :: int where "NSIG = 65"

function reset_signals :: "int \<Rightarrow> (int \<Rightarrow> disposition) \<Rightarrow> (int \<Rightarrow> disposition)" where
  "reset_signals sig t = (if sig < NSIG then reset_signals (sig + 1) (t(sig := Sig_default)) else t)"
  by pat_completeness auto
termination
  by (relation "measure (\<lambda>(sig, t). nat (NSIG - sig))") auto

declare reset_signals.simps [simp del]

function close_fds :: "int \<Rightarrow> int \<Rightarrow> fd_table \<Rightarrow> fd_table" where
  "close_fds i n t = (if i < n then close_fds (i + 1) n (sys_close (nat i) t) else t)"
  by pat_completeness auto
termination
  by (relation "measure (\<lambda>(i, n, t). nat (n - i))") auto

declare close_fds.simps [simp del]

text \<open>The cast of the limit, an unsigned number of 64 bits, to \<^verbatim>\<open>int\<close>.\<close>

definition int_of_rlim :: "64 word \<Rightarrow> int" where
  "int_of_rlim r = sint (ucast r :: 32 word)"

record launch_env =
  l_open :: bool
  l_fork :: int
  l_slave :: nat
  l_rlimit :: "64 word"
  l_tcgetattr :: bool
  l_tcsetattr :: bool
  l_find :: "bytes \<Rightarrow> bytes"

definition setupTTY :: "launch_env \<Rightarrow> child_state \<Rightarrow> int \<times> child_state" where
  "setupTTY L ch =
     (let ch = ch\<lparr>ch_signals := (reset_signals 1 (ch_signals ch))(SIGHUP := Sig_ignored)\<rparr>;
          ch = ch\<lparr>ch_ctty := True\<rparr>;
          fds = sys_dup2 (l_slave L) 2 (sys_dup2 (l_slave L) 1 (sys_dup2 (l_slave L) 0 (ch_fds ch)));
          ch = ch\<lparr>ch_fds := close_fds 3 (int_of_rlim (l_rlimit L)) fds\<rparr>
      in if \<not> l_tcgetattr L then (-1, ch)
         else if \<not> l_tcsetattr L then (-1, ch)
         else (0, ch\<lparr>ch_opost := False\<rparr>))"

section \<open>init and exec\<close>

definition pty_init :: "launch_env \<Rightarrow> pty \<Rightarrow> int \<times> pty" where
  "pty_init L p =
     (let p = p\<lparr>has_pty := True\<rparr> in
      if \<not> l_open L then (-1, p)
      else
        let p = (if \<not> wantLocalEcho p then enableLocalEcho False p else p)
        in (0, p\<lparr>inputBuffer := []\<rparr>))"

definition child_environment :: "bytes list \<Rightarrow> environ \<Rightarrow> environ" where
  "child_environment vars env =
     (let env = fold putenv vars env;
          env = unsetenv ''KDE_FULL_SESSION'' env;
          env = unsetenv ''SESSION_MANAGER'' env;
          env = unsetenv ''DBUS_SESSION_BUS_ADDRESS'' env;
          old_lc_all = qgetenv ''LC_ALL'' env;
          env = (if old_lc_all \<noteq> [] then qputenv ''KDESU_LC_ALL'' old_lc_all env else unsetenv ''KDESU_LC_ALL'' env)
      in qputenv ''LC_ALL'' ''C'' env)"

definition program_path :: "launch_env \<Rightarrow> bytes \<Rightarrow> bytes" where
  "program_path L command = (if CHR ''/'' \<in> set command then command else l_find L command)"

text \<open>
  How the call ends: with a return value in the parent, with \<^verbatim>\<open>_exit(1)\<close> in the child, or with
  \<^verbatim>\<open>execv\<close> of a program.
\<close>

datatype launch_end = Launched int | Child_exit int | Child_execv bytes "bytes list" child_state

definition pty_exec :: "launch_env \<Rightarrow> bytes \<Rightarrow> bytes list \<Rightarrow> child_state \<Rightarrow> pty \<Rightarrow> launch_end \<times> pty" where
  "pty_exec L command args ch p =
     (case pty_init L p of (ret, p) \<Rightarrow>
        if ret < 0 then (Launched (-1), p)
        else
          let p = p\<lparr>child_pid := l_fork L\<rparr> in
          if l_fork L = -1 then (Launched (-1), p)
          else if l_fork L \<noteq> 0 then (Launched 0, p)
          else
            (case setupTTY L ch of (ret, ch) \<Rightarrow>
               if ret < 0 then (Child_exit 1, p)
               else
                 let ch = ch\<lparr>ch_env := child_environment (extra_env p) (ch_env ch)\<rparr>;
                     path = program_path L command
                 in if path = [] then (Child_exit 1, p)
                    else (Child_execv path (path # args) ch, p)))"

section \<open>What the program starts with\<close>

lemma reset_signals: "reset_signals sig t s = (if sig \<le> s \<and> s < NSIG then Sig_default else t s)"
proof (induction sig t rule: reset_signals.induct)
  case (1 sig t)
  then show ?case
    by (cases "sig < NSIG") (auto simp: reset_signals.simps [of sig t] fun_upd_def)
qed

lemma close_fds: "0 \<le> i \<Longrightarrow> close_fds i n t f = (if i \<le> int f \<and> int f < n then None else t f)"
proof (induction i n t rule: close_fds.induct)
  case (1 i n t)
  then show ?case
    by (cases "i < n") (auto simp: close_fds.simps [of i n t] sys_close_def fun_upd_def)
qed

text \<open>The descriptors behind the loop: the terminal three times, and what the loop did not reach.\<close>

lemma setup_fds:
  assumes "ch_fds ch (l_slave L) = Some Tty_slave" and "setupTTY L ch = (0, ch')"
  shows "ch_fds ch' f = (if f < 3 then Some Tty_slave else if int f < int_of_rlim (l_rlimit L) then None else ch_fds ch f)"
  using assms by (auto simp: setupTTY_def Let_def close_fds sys_dup2_def split: if_splits)

lemma int_of_rlim_small:
  assumes "unat r < 2 ^ 31"
  shows "int_of_rlim r = int (unat r)"
proof -
  have "uint r = int (unat r)" by simp
  also have "int (unat r) < int (2 ^ 31)" using assms by (rule of_nat_less_iff [THEN iffD2])
  also have "int (2 ^ 31) = 2 ^ 31" by simp
  finally have u: "uint r < 2 ^ 31" .
  have s: "sint w = signed_take_bit 31 (uint w)" for w :: "32 word" by (simp add: sint_uint)
  have "uint (ucast r :: 32 word) = uint r" using u by (simp add: unsigned_ucast_eq take_bit_int_eq_self)
  then have "sint (ucast r :: 32 word) = signed_take_bit 31 (uint r)" unfolding s by (rule arg_cong)
  also have "\<dots> = uint r" by (rule signed_take_bit_int_eq_self) (use u uint_ge_0 [of r] in linarith)+
  also have "\<dots> = int (unat r)" by simp
  finally show ?thesis unfolding int_of_rlim_def .
qed

lemma pty_exec_child:
  assumes "pty_exec L command args ch p = (Child_execv path argv ch', p')"
  obtains ch1 where "setupTTY L ch = (0, ch1)"
    and "ch' = ch1\<lparr>ch_env := child_environment (extra_env p) (ch_env ch)\<rparr>"
    and "path = program_path L command" and "argv = path # args" and "path \<noteq> []"
proof -
  have two: "fst (setupTTY L ch) = 0 \<or> fst (setupTTY L ch) = -1" and env: "ch_env (snd (setupTTY L ch)) = ch_env ch"
    by (simp_all add: setupTTY_def Let_def)
  have "extra_env q = extra_env p" if "pty_init L p = (r, q)" for r q
    using that by (auto simp: pty_init_def enableLocalEcho_def Let_def split: if_splits)
  with assms two env show ?thesis
    by (intro that [of "snd (setupTTY L ch)"])
      (auto simp: pty_exec_def Let_def split: prod.splits if_splits)
qed

lemma child_environment_results:
  "child_environment vars env ''LC_ALL'' = Some ''C''"
  "child_environment vars env ''DBUS_SESSION_BUS_ADDRESS'' = None"
  "child_environment vars env ''SESSION_MANAGER'' = None"
  "child_environment vars env ''KDE_FULL_SESSION'' = None"
  "child_environment vars env ''KDESU_LC_ALL'' =
     (let old = qgetenv ''LC_ALL'' (fold putenv vars env) in if old = [] then None else Some (c_str old))"
  "n \<notin> {''LC_ALL'', ''DBUS_SESSION_BUS_ADDRESS'', ''SESSION_MANAGER'', ''KDE_FULL_SESSION'', ''KDESU_LC_ALL''} \<Longrightarrow>
     child_environment vars env n = fold putenv vars env n"
  by (auto simp: child_environment_def environ_defs Let_def c_str_id)

end
