(* ===== verification/Su.thy ===== *)
theory Su
  imports Stub
begin

text \<open>
  Running a command through \<^verbatim>\<open>su\<close>, \<^verbatim>\<open>sudo\<close> or \<^verbatim>\<open>doas\<close>,
  \<^verbatim>\<open>src/src/suprocess.cpp\<close>: which program is started with which arguments, the
  conversation in which the password is handed over, and what the caller is told. The program
  talks through the terminal of theory \<open>Pty\<close>; the configuration file and the search for
  executables are arguments (\<open>su_env\<close>).

  The lemmas show what is taken for a password prompt, and that the password is written at most
  once, in answer to such a prompt.
\<close>

section \<open>The program to start\<close>

definition isPrivilegeEscalation :: "bytes \<Rightarrow> bool" where
  "isPrivilegeEscalation superUserCommand \<longleftrightarrow> superUserCommand = ''sudo'' \<or> superUserCommand = ''doas''"

text \<open>
  The constructor: \<open>entry\<close> is the configured program, which defaults to \<open>built_in\<close>, the choice
  made when the library was built.
\<close>

definition choose_superUserCommand :: "bytes \<Rightarrow> bytes \<Rightarrow> bytes" where
  "choose_superUserCommand built_in entry =
     (if \<not> isPrivilegeEscalation entry \<and> entry \<noteq> ''su'' then built_in else entry)"

definition new_su :: "bytes \<Rightarrow> bytes \<Rightarrow> stub_process" where
  "new_su user command = new_stub\<lparr>m_user := user, m_command := command\<rparr>"

definition useUsersOwnPassword :: "bytes \<Rightarrow> bytes \<Rightarrow> stub_process \<Rightarrow> bool" where
  "useUsersOwnPassword superUserCommand loginName s =
     (if isPrivilegeEscalation superUserCommand \<and> m_user s = ''root'' then True else loginName = m_user s)"

definition su_override :: "stub_process \<Rightarrow> bytes \<Rightarrow> bytes" where
  "su_override s superUserCommand = (if m_user s \<noteq> ''root'' then ''su'' else superUserCommand)"

definition su_args :: "bytes \<Rightarrow> stub_process \<Rightarrow> bytes \<Rightarrow> bytes list" where
  "su_args superUserCommand s kdesuStubPath =
     (let args = [];
          args = (if isPrivilegeEscalation superUserCommand then args @ [''-u''] else args);
          args = (if m_scheduler s \<noteq> SchedNormal \<or> m_priority s > 50 then args @ [''root''] else args @ [m_user s]);
          args = (if superUserCommand = ''su'' then args @ [''-c''] else args);
          args = args @ [kdesuStubPath]
      in args @ [''-''])"

section \<open>The conversation\<close>

text \<open>
  The loop that looks for a prompt: at position \<open>i\<close>, with \<open>j\<close> and \<open>colon\<close> as in the code.
\<close>

fun prompt_scan :: "nat \<Rightarrow> nat \<Rightarrow> nat \<Rightarrow> bytes \<Rightarrow> nat \<times> nat" where
  "prompt_scan i j colon [] = (j, colon)"
| "prompt_scan i j colon (c # cs) =
     (if c = CHR '':'' then prompt_scan (i + 1) i (colon + 1) cs
      else prompt_scan (i + 1) (if \<not> isspace c then j + 1 else j) colon cs)"

text \<open>The test behind the loop; \<^const>\<open>None\<close> if it reads behind the end of the line.\<close>

definition is_prompt :: "bytes \<Rightarrow> bool option" where
  "is_prompt line =
     (case prompt_scan 0 0 0 line of (j, colon) \<Rightarrow>
        if colon = 1 then (if j < length line then Some (line ! j = CHR '':'') else None)
        else Some False)"

datatype su_state = WaitForPrompt | CheckStar | HandleStub

definition SU_error :: int where "SU_error = -1"
definition SU_ok :: int where "SU_ok = 0"
definition SU_killme :: int where "SU_killme = 1"
definition SU_notauthorized :: int where "SU_notauthorized = 2"

definition write_password :: "bytes \<Rightarrow> pty \<Rightarrow> pty" where
  "write_password password p = write_fd [NL] (write_fd (c_str password) p)"

lemma waitSlave_frame:
  "waitSlave p = Some (ret, q) \<Longrightarrow> reads q = reads p \<and> written q = written p \<and> inputBuffer q = inputBuffer p"
  by (auto simp: waitSlave_def)

function converseSU :: "bytes option \<Rightarrow> su_state \<Rightarrow> pty \<Rightarrow> (int \<times> pty) option" where
  "converseSU password state p =
     (case readLine True p of
        None \<Rightarrow> None
      | Some (q, p) \<Rightarrow>
          let line = bytes_of q in
          if contains line '':'' \<and> state \<noteq> WaitForPrompt \<or> isNull q then
            Some (if state = HandleStub then SU_notauthorized else SU_error, p)
          else if line = ''kdesu_stub'' then Some (SU_ok, unreadLine line True p)
          else case state of
            WaitForPrompt \<Rightarrow>
              (case waitMS p of
                 None \<Rightarrow> None
               | Some (avail, p) \<Rightarrow>
                   if avail > 0 then converseSU password WaitForPrompt p
                   else case is_prompt line of
                     None \<Rightarrow> None
                   | Some False \<Rightarrow> converseSU password WaitForPrompt p
                   | Some True \<Rightarrow>
                       (case password of
                          None \<Rightarrow> Some (SU_killme, p)
                        | Some pw \<Rightarrow>
                            (case waitSlave p of
                               None \<Rightarrow> None
                             | Some (ret, p') \<Rightarrow>
                                 if ret \<noteq> 0 then Some (SU_error, p')
                                 else converseSU password CheckStar (write_password pw p'))))
          | CheckStar \<Rightarrow>
              (let s = trimmed line in
               if s = [] then converseSU password HandleStub p
               else if list_ex (\<lambda>c. c \<noteq> CHR ''*'') s then Some (SU_error, p)
               else converseSU password HandleStub p)
          | HandleStub \<Rightarrow> converseSU password HandleStub p)"
  by pat_completeness auto
termination
  by (relation "measure (\<lambda>(pw, st, p). length (reads p))")
    (auto simp: write_password_def dest!: readLine_reads waitSlave_frame waitMS_frame)

declare converseSU.simps [simp del]

section \<open>Running the command\<close>

definition SuNotFound :: int where "SuNotFound = 1"
definition SuIncorrectPassword :: int where "SuIncorrectPassword = 3"
definition NoCheck :: int where "NoCheck = 0"
definition Install :: int where "Install = 1"
definition NeedPassword :: int where "NeedPassword = 2"

text \<open>
  \<open>su_command\<close> is the path of the program to start, empty if it is not found; \<open>su_started\<close>
  whether \<^verbatim>\<open>PtyProcess::exec\<close> succeeded; \<open>su_killed\<close> the success of \<^verbatim>\<open>kill\<close>; \<open>su_wait\<close>
  what the one call of \<^verbatim>\<open>waitForChild\<close> meets.
\<close>

record su_env =
  su_stub_path :: bytes
  su_command :: bytes
  su_started :: bool
  su_killed :: bool
  su_wait :: "(select_answer \<times> wait_answer) list"
  su_stub_env :: stub_env

definition su_exec :: "su_env \<Rightarrow> bytes \<Rightarrow> stub_process \<Rightarrow> bytes option \<Rightarrow> int \<Rightarrow> pty \<Rightarrow> (int \<times> pty) option" where
  "su_exec E superUserCommand s password check p =
     (let p = (if check \<noteq> 0 then setTerminal True p else p);
          superUserCommand = su_override s superUserCommand
      in if su_command E = [] then Some (if check \<noteq> 0 then SuNotFound else -1, p)
      else
        let p = enableLocalEcho False p in
        if \<not> su_started E then Some (if check \<noteq> 0 then SuNotFound else -1, p)
        else
          (case converseSU password WaitForPrompt p of
             None \<Rightarrow> None
           | Some (ret, p) \<Rightarrow>
               if ret = SU_error then Some (ret, p)
               else if check = NeedPassword then
                 if ret = SU_killme then
                   if isPrivilegeEscalation superUserCommand then Some (ret, p)
                   else
                     let p = kill_child SIGKILL p in
                     if \<not> su_killed E then Some (SU_error, p)
                     else map_option (\<lambda>(iret, p). (if iret < 0 then SU_error else ret, p)) (waitForChild (su_wait E) p)
                 else Some (ret, p)
               else if ret \<noteq> SU_ok then
                 let p = kill_child SIGKILL p in
                 if isPrivilegeEscalation superUserCommand then
                   map_option (\<lambda>(_, p). (SuIncorrectPassword, p)) (waitForChild (su_wait E) p)
                 else Some (SuIncorrectPassword, p)
               else
                 (case converseStub (su_stub_env E) s check p of
                    None \<Rightarrow> None
                  | Some (iret, p) \<Rightarrow>
                      if iret < 0 then Some (iret, p)
                      else if iret = 1 then
                        map_option (\<lambda>(_, p). (SuIncorrectPassword, p)) (waitForChild (su_wait E) (kill_child SIGKILL p))
                      else if check = Install then map_option (\<lambda>(_, p). (0, p)) (waitForChild (su_wait E) p)
                      else waitForChild (su_wait E) p)))"

definition su_checkInstall :: "su_env \<Rightarrow> bytes \<Rightarrow> stub_process \<Rightarrow> bytes option \<Rightarrow> pty \<Rightarrow> (int \<times> pty) option" where
  "su_checkInstall E c s password p = su_exec E c s password Install p"

definition su_checkNeedPassword :: "su_env \<Rightarrow> bytes \<Rightarrow> stub_process \<Rightarrow> pty \<Rightarrow> (int \<times> pty) option" where
  "su_checkNeedPassword E c s p = su_exec E c s None NeedPassword p"

section \<open>Prompts\<close>

text \<open>Without a colon the scan changes \<open>j\<close> by the number of characters that are not white space.\<close>

lemma prompt_scan_plain:
  "CHR '':'' \<notin> set cs \<Longrightarrow> prompt_scan i j n cs = (j + length (filter (\<lambda>c. \<not> isspace c) cs), n)"
  by (induction cs arbitrary: i j) auto

lemma prompt_scan_colons: "snd (prompt_scan i j n cs) = n + count_list cs (CHR '':'')"
  by (induction cs arbitrary: i j n) auto

lemma prompt_scan_append:
  "CHR '':'' \<notin> set p \<Longrightarrow> prompt_scan i j n (p @ CHR '':'' # q) = prompt_scan (i + length p + 1) (i + length p) (n + 1) q"
  by (induction p arbitrary: i j) auto

text \<open>One colon, and nothing but white space after it.\<close>

lemma is_prompt_iff:
  "is_prompt line = Some (\<exists>p q. line = p @ CHR '':'' # q \<and> CHR '':'' \<notin> set (p @ q) \<and> (\<forall>c \<in> set q. isspace c))"
proof (cases "CHR '':'' \<in> set line")
  case False
  then show ?thesis by (auto simp: is_prompt_def prompt_scan_plain)
next
  case True
  then obtain p q where line: "line = p @ CHR '':'' # q" "CHR '':'' \<notin> set p" by (metis split_list_first)
  have scan: "prompt_scan 0 0 0 line = prompt_scan (length p + 1) (length p) 1 q"
    using prompt_scan_append [OF line(2), of 0 0 0 q] line(1) by simp
  have uniq: "(\<exists>p' q'. line = p' @ CHR '':'' # q' \<and> CHR '':'' \<notin> set (p' @ q') \<and> (\<forall>c \<in> set q'. isspace c)) \<longleftrightarrow>
      CHR '':'' \<notin> set q \<and> (\<forall>c \<in> set q. isspace c)"
    using append_stop_eq [OF line(2)] line by auto
  show ?thesis
  proof (cases "CHR '':'' \<in> set q")
    case True
    then have "snd (prompt_scan 0 0 0 line) \<noteq> 1"
      using prompt_scan_colons [of "length p + 1" "length p" 1 q] by (simp add: scan count_list_0_iff)
    then show ?thesis using uniq True by (auto simp: is_prompt_def split: prod.splits)
  next
    case False
    let ?w = "filter (\<lambda>c. \<not> isspace c) q"
    have "?w = [] \<longleftrightarrow> (\<forall>c \<in> set q. isspace c)" by (simp add: filter_empty_conv)
    moreover have "line ! (length p + length ?w) = CHR '':'' \<longleftrightarrow> ?w = []"
    proof (cases ?w)
      case (Cons c cs)
      have "length ?w \<le> length q" by (rule length_filter_le)
      then have "line ! (length p + length ?w) \<in> set q" using line(1) Cons by (simp add: nth_append)
      then show ?thesis using False Cons by auto
    qed (simp add: line(1))
    moreover have "length p + length ?w < length line" using line(1) by (simp add: le_imp_less_Suc [OF length_filter_le])
    ultimately show ?thesis
      using uniq False by (simp add: is_prompt_def scan prompt_scan_plain)
  qed
qed

section \<open>The password is written once\<close>

lemma readLine_written:
  assumes "readLine b p = Some (l, q)"
  shows "written q = written p"
  using assms by (cases rule: readLine_cases) (auto dest: readAll_buffer)

text \<open>After the password there is no further one: from the later states nothing is written.\<close>

lemma converseSU_later:
  "converseSU pw st p = Some (ret, p') \<Longrightarrow> st \<noteq> WaitForPrompt \<Longrightarrow> written p' = written p"
proof (induction pw st p rule: converseSU.induct)
  case (1 pw st p)
  then show ?case
    by (auto simp: converseSU.simps [of pw st p] Let_def unreadLine_def readLine_written
        split: option.splits if_splits su_state.splits)
qed

lemma converseSU_written:
  "converseSU pw WaitForPrompt p = Some (ret, p') \<Longrightarrow>
     written p' = written p \<or> (\<exists>w. pw = Some w \<and> written p' = written p @ [c_str w, [NL]])"
proof (induction "length (reads p)" arbitrary: p rule: less_induct)
  case less
  obtain q p1 where r: "readLine True p = Some (q, p1)"
    using less.prems by (auto simp: converseSU.simps [of pw WaitForPrompt p] split: option.splits)
  have w1: "written p1 = written p" by (rule readLine_written [OF r])
  show ?case
  proof (cases "isNull q \<or> bytes_of q = ''kdesu_stub''")
    case True
    then show ?thesis
      using less.prems r w1 by (auto simp: converseSU.simps [of pw WaitForPrompt p] unreadLine_def Let_def split: if_splits)
  next
    case False
    then obtain avail later where m: "more_output p1 = avail # later"
      using less.prems r False by (auto simp: converseSU.simps [of pw WaitForPrompt p] waitMS_def Let_def split: list.splits option.splits)
    let ?p2 = "p1\<lparr>more_output := later\<rparr>"
    have IH: "converseSU pw WaitForPrompt ?p2 = Some (ret, p') \<Longrightarrow> ?thesis"
      using less.hyps [of ?p2] readLine_reads [OF r] w1 by simp
    obtain b where b: "is_prompt (bytes_of q) = Some b" by (simp add: is_prompt_iff)
    show ?thesis
    proof (cases "avail \<or> \<not> b")
      case True
      then show ?thesis
        using less.prems r False m b IH by (auto simp: converseSU.simps [of pw WaitForPrompt p] Let_def split: if_splits)
    next
      case prompt: False
      show ?thesis
      proof (cases pw)
        case None
        then show ?thesis
          using less.prems r False m b prompt w1 by (auto simp: converseSU.simps [of None WaitForPrompt p] Let_def)
      next
        case (Some w)
        then obtain sret p3 where s: "waitSlave ?p2 = Some (sret, p3)"
          using less.prems r False m b prompt
          by (auto simp: converseSU.simps [of "Some w" WaitForPrompt p] Let_def split: option.splits)
        have w3: "written p3 = written p" using waitSlave_frame [OF s] w1 by simp
        show ?thesis
        proof (cases "sret = 0")
          case False
          then show ?thesis
            using less.prems r \<open>\<not> (isNull q \<or> bytes_of q = ''kdesu_stub'')\<close> m b prompt Some s w3
            by (auto simp: converseSU.simps [of "Some w" WaitForPrompt p] Let_def)
        next
          case True
          then have "converseSU pw CheckStar (write_password w p3) = Some (ret, p')"
            using less.prems r False m b prompt Some s
            by (auto simp: converseSU.simps [of "Some w" WaitForPrompt p] Let_def)
          from converseSU_later [OF this] w3 Some show ?thesis by (simp add: write_password_def write_fd_def)
        qed
      qed
    qed
  qed
qed

text \<open>
  The conversation returns when the other side falls silent at some time and the questions about
  the terminal are answered as long as it speaks; with it the whole of \<^verbatim>\<open>exec\<close> returns, when the loop
  that waits for the child meets its end.
\<close>

lemma unread_silent:
  assumes "falls_silent (k + 2) p" and "length (reads p) = Suc (length (reads p1))" and "list_all answered (reads p1)"
    and "pending p1 + length line \<le> pending p"
  shows "falls_silent k (unreadLine line True p1)"
  using assms by (simp add: falls_silent_def unreadLine_def pending_def)

lemma converseSU_returns:
  assumes "falls_silent (k + 2) p" and "pending p \<le> length (more_output p)"
    and "state = WaitForPrompt \<Longrightarrow> waitSlave_loop (slave_polls p) \<noteq> None"
  shows "\<exists>ret p'. converseSU pw state p = Some (ret, p') \<and> falls_silent k p'"
  using assms
proof (induction "pending p" arbitrary: p state rule: less_induct)
  case less
  obtain q p1 where r: "readLine True p = Some (q, p1)" "length (reads p) = Suc (length (reads p1))"
    "q \<noteq> None \<longrightarrow> falls_silent (k + 2) p1 \<and> pending p1 < pending p \<and> pending p1 + length (bytes_of q) \<le> pending p"
    "0 < k + 2 \<longrightarrow> falls_silent (k + 2 - 1) p1" "more_output p1 = more_output p" "slave_polls p1 = slave_polls p"
    by (rule readLine_returns [OF less.prems(1), of True])
  have k: "falls_silent k p1" using falls_silent_mono [of "k + 2 - 1" p1 k] r(4) by simp
  note step = converseSU.simps [of pw state p, unfolded r(1) option.case prod.case Let_def]
  show ?case
  proof (cases "q = None \<or> contains (bytes_of q) '':'' \<and> state \<noteq> WaitForPrompt \<or> bytes_of q = ''kdesu_stub''")
    case True
    have "falls_silent k (unreadLine (bytes_of q) True p1)" if "q \<noteq> None"
      by (rule unread_silent [OF less.prems(1) r(2)]) (use r(3,4) that in \<open>simp_all add: falls_silent_def\<close>)
    then show ?thesis using True k unfolding step by (auto simp: isNull_def)
  next
    case False
    then have q: "falls_silent (k + 2) p1" "pending p1 < pending p" "\<not> isNull q" using r(3) by (auto simp: isNull_def)
    have handle: "\<exists>ret p'. converseSU pw HandleStub p1 = Some (ret, p') \<and> falls_silent k p'"
      using less.hyps [OF q(2,1), of HandleStub] less.prems(2) q(2) r(5) by simp
    show ?thesis
    proof (cases state)
      case HandleStub
      then show ?thesis using False handle q(3) unfolding step by simp
    next
      case CheckStar
      then show ?thesis using False handle q(3) k unfolding step by simp
    next
      case WaitForPrompt
      obtain m ms where m: "more_output p1 = m # ms" using q(2) less.prems(2) r(5) by (cases "more_output p") auto
      let ?p2 = "p1\<lparr>more_output := ms\<rparr>"
      have p2: "falls_silent (k + 2) ?p2" "pending ?p2 < pending p" "pending ?p2 \<le> length ms"
        using q m less.prems(2) r(5) by (simp_all add: falls_silent_def pending_def)
      have ws: "waitSlave_loop (slave_polls p1) \<noteq> None" using less.prems(3) WaitForPrompt r(6) by simp
      have again: "\<exists>ret p'. converseSU pw WaitForPrompt ?p2 = Some (ret, p') \<and> falls_silent k p'"
        using less.hyps [OF p2(2,1)] p2(3) ws by simp
      obtain b where b: "is_prompt (bytes_of q) = Some b" by (simp add: is_prompt_iff)
      obtain sret ps where w: "waitSlave ?p2 = Some (sret, ?p2\<lparr>slave_polls := ps\<rparr>)" using ws by (auto simp: waitSlave_def)
      have fed: "\<exists>ret p'. converseSU pw CheckStar (write_password x (?p2\<lparr>slave_polls := ps\<rparr>)) = Some (ret, p') \<and> falls_silent k p'" for x
        using less.hyps [of "write_password x (?p2\<lparr>slave_polls := ps\<rparr>)" CheckStar] p2
        by (simp add: write_password_def write_fd_def falls_silent_def pending_def)
      have k2: "falls_silent k ?p2" "falls_silent k (?p2\<lparr>slave_polls := ps\<rparr>)"
        using k by (simp_all add: falls_silent_def pending_def)
      show ?thesis
        using False WaitForPrompt q(3) m b w again fed k2 unfolding step by (cases b; cases m; cases pw) auto
    qed
  qed
qed

lemma su_exec_returns:
  assumes "falls_silent (length (su_wait E) + 3) p" and "pending p \<le> length (more_output p)"
    and "waitSlave_loop (slave_polls p) \<noteq> None" and "list_ex decisive (su_wait E)"
  shows "\<exists>ret p'. su_exec E cmd s password check p = Some (ret, p')"
proof -
  let ?p = "enableLocalEcho False (if check \<noteq> 0 then setTerminal True p else p)"
  have "falls_silent (length (su_wait E) + 1 + 2) ?p" "pending ?p \<le> length (more_output ?p)" "waitSlave_loop (slave_polls ?p) \<noteq> None"
    using assms(1-3) by (simp_all add: enableLocalEcho_def falls_silent_def pending_def)
  then obtain ret p1 where c: "converseSU password WaitForPrompt ?p = Some (ret, p1)" "falls_silent (length (su_wait E) + 1) p1"
    using converseSU_returns by blast
  obtain iret p2 where st: "converseStub (su_stub_env E) s check p1 = Some (iret, p2)" "falls_silent (length (su_wait E)) p2"
    using converseStub_returns [of "length (su_wait E)" p1 "su_stub_env E" s check] c(2) by auto
  have quiet: "stays_quiet (length (su_wait E) + 0) p1" "stays_quiet (length (su_wait E) + 0) p2"
    using stays_quiet_mono [OF silent_quiet [OF c(2)], of "length (su_wait E)"] silent_quiet [OF st(2)] by simp_all
  have waits: "\<exists>r q'. waitForChild (su_wait E) q = Some (r, q')" if "stays_quiet (length (su_wait E) + 0) q" for q
    using waitForChild_returns [OF that assms(4)] by blast
  obtain r1 q1 r2 q2 r3 q3 where "waitForChild (su_wait E) (kill_child SIGKILL p1) = Some (r1, q1)"
    "waitForChild (su_wait E) (kill_child SIGKILL p2) = Some (r2, q2)" "waitForChild (su_wait E) p2 = Some (r3, q3)"
    using waits [of "kill_child SIGKILL p1"] waits [of "kill_child SIGKILL p2"] waits [OF quiet(2)] quiet by auto
  then show ?thesis using c(1) st(1) by (auto simp: su_exec_def Let_def)
qed

end
