(* ===== verification/Ssh.thy ===== *)
theory Ssh
  imports Su
begin

text \<open>
  Running a command through ssh, \<^verbatim>\<open>src/src/sshprocess.cpp\<close>: the arguments of ssh, the
  conversation with it, and what the caller is told. The prompt is looked for as in theory
  \<open>Su\<close>. The display of the stub is always \<^verbatim>\<open>no\<close>: ssh redirects it itself.
\<close>

record ssh_process =
  ssh_proc :: stub_process
  ssh_prompt :: bytes
  ssh_host :: bytes
  ssh_error :: bytes
  ssh_stub :: bytes

definition new_ssh :: "bytes \<Rightarrow> bytes \<Rightarrow> bytes \<Rightarrow> ssh_process" where
  "new_ssh host user command =
     \<lparr>ssh_proc = new_stub\<lparr>m_user := user, m_command := command\<rparr>, ssh_prompt = [], ssh_host = host,
      ssh_error = [], ssh_stub = ''kdesu_stub''\<rparr>"

definition setHost :: "bytes \<Rightarrow> ssh_process \<Rightarrow> ssh_process" where
  "setHost host s = s\<lparr>ssh_host := host\<rparr>"

definition setStub :: "bytes \<Rightarrow> ssh_process \<Rightarrow> ssh_process" where
  "setStub stub s = s\<lparr>ssh_stub := stub\<rparr>"

definition SshNotFound :: int where "SshNotFound = 1"
definition SshNeedsPassword :: int where "SshNeedsPassword = 2"
definition SshIncorrectPassword :: int where "SshIncorrectPassword = 3"

definition ssh_args :: "ssh_process \<Rightarrow> bytes list" where
  "ssh_args s = [''-l'', m_user (ssh_proc s), ''-o'', ''StrictHostKeyChecking=no'', ssh_host s, ssh_stub s]"

definition ssh_display :: "stub_env \<Rightarrow> stub_env" where
  "ssh_display E = E\<lparr>e_display := ''no'', e_displayAuth := ''no''\<rparr>"

text \<open>
  The conversation, in state 0 or 1; leaving the loop in state 2 returns 0. A missing password
  would be undefined behaviour where it is written.
\<close>

function converseSsh :: "bytes option \<Rightarrow> int \<Rightarrow> nat \<Rightarrow> ssh_process \<Rightarrow> pty \<Rightarrow> (int \<times> ssh_process \<times> pty) option" where
  "converseSsh password check state s p =
     (if \<not> state < 2 then Some (0, s, p)
      else case readLine True p of
        None \<Rightarrow> None
      | Some (None, p) \<Rightarrow> Some (-1, s, p)
      | Some (Some line, p) \<Rightarrow>
          if state = 0 then
            if line = ''kdesu_stub'' then Some (0, s, unreadLine line True p)
            else case is_prompt line of
              None \<Rightarrow> None
            | Some True \<Rightarrow>
                if check = 2 then Some (SshNeedsPassword, s\<lparr>ssh_prompt := line\<rparr>, p)
                else
                  (case waitSlave p of
                     None \<Rightarrow> None
                   | Some (ret, p') \<Rightarrow>
                       if ret \<noteq> 0 then Some (-1, s, p')
                       else case password of
                         None \<Rightarrow> None
                       | Some pw \<Rightarrow> converseSsh password check (state + 1) s (write_password pw p'))
            | Some False \<Rightarrow> converseSsh password check state (s\<lparr>ssh_error := ssh_error s @ line @ [NL]\<rparr>) p
          else if line = [] then converseSsh password check (state + 1) s p
          else Some (-1, s, p))"
  by pat_completeness auto
termination
  by (relation "measure (\<lambda>(pw, ck, st, s, p). length (reads p))")
    (auto simp: write_password_def dest!: readLine_reads waitSlave_frame)

declare converseSsh.simps [simp del]

definition prompt_of :: "ssh_process \<Rightarrow> bytes" where
  "prompt_of s = ssh_prompt s"

definition error_of :: "ssh_process \<Rightarrow> bytes" where
  "error_of s = ssh_error s"

record ssh_env =
  ssh_started :: bool
  ssh_waits :: "(select_answer \<times> wait_answer) list list"
  ssh_stub_env :: stub_env

text \<open>One call of \<^verbatim>\<open>waitForChild\<close>; \<open>ssh_waits\<close> has a script for each of the (at most two) calls.\<close>

definition ssh_wait :: "nat \<Rightarrow> ssh_env \<Rightarrow> pty \<Rightarrow> (int \<times> pty) option" where
  "ssh_wait n E p = (if n < length (ssh_waits E) then waitForChild (ssh_waits E ! n) p else None)"

text \<open>
  After the conversation with the stub \<open>ret\<close> is 0, or 1 for "kill me"; in the second case the
  code goes on after killing.
\<close>

definition ssh_finish :: "ssh_env \<Rightarrow> int \<Rightarrow> int \<Rightarrow> ssh_process \<Rightarrow> pty \<Rightarrow> (int \<times> ssh_process \<times> pty) option" where
  "ssh_finish E check ret s p =
     (case (if ret = 1 then map_option (\<lambda>(_, p). (1, p)) (ssh_wait 0 E (kill_child SIGTERM p)) else Some (0, p)) of
        None \<Rightarrow> None
      | Some (calls, p) \<Rightarrow>
          if check = 1 then map_option (\<lambda>(_, p). (0, s, p)) (ssh_wait calls E p)
          else
            let p = setExitString ''Waiting for forwarded connections to terminate'' p
            in map_option (\<lambda>(ret, p). (ret, s, p)) (ssh_wait calls E p))"

definition ssh_exec :: "ssh_env \<Rightarrow> ssh_process \<Rightarrow> bytes option \<Rightarrow> int \<Rightarrow> pty \<Rightarrow> (int \<times> ssh_process \<times> pty) option" where
  "ssh_exec E s password check p =
     (let p = (if check \<noteq> 0 then setTerminal True p else p)
      in if \<not> ssh_started E then Some (if check \<noteq> 0 then SshNotFound else -1, s, p)
      else
        (case converseSsh password check 0 s p of
           None \<Rightarrow> None
         | Some (ret, s, p) \<Rightarrow>
             if ret < 0 then Some (ret, s, p)
             else if check = 2 then
               if ret = 1 then map_option (\<lambda>(_, p). (ret, s, p)) (ssh_wait 0 E (kill_child SIGTERM p))
               else Some (ret, s, p)
             else
               (case converseStub (ssh_display (ssh_stub_env E)) (ssh_proc s) check p of
                  None \<Rightarrow> None
                | Some (ret, p) \<Rightarrow> if ret < 0 then Some (ret, s, p) else ssh_finish E check ret s p)))"

definition ssh_checkInstall :: "ssh_env \<Rightarrow> ssh_process \<Rightarrow> bytes \<Rightarrow> pty \<Rightarrow> (int \<times> ssh_process \<times> pty) option" where
  "ssh_checkInstall E s password p = ssh_exec E s (Some password) 1 p"

definition ssh_checkNeedPassword :: "ssh_env \<Rightarrow> ssh_process \<Rightarrow> pty \<Rightarrow> (int \<times> ssh_process \<times> pty) option" where
  "ssh_checkNeedPassword E s p = ssh_exec E s None 2 p"

section \<open>Asking whether a password is needed\<close>

lemma readLine_signals:
  assumes "readLine b p = Some (l, q)"
  shows "signals q = signals p"
  using assms by (cases rule: readLine_cases) (auto dest: readAll_buffer)

text \<open>The question is answered without writing anything and without a signal.\<close>

lemma converseSsh_question:
  "converseSsh pw 2 0 s p = Some (ret, s', p') \<Longrightarrow>
     ret \<in> {-1, 0, SshNeedsPassword} \<and> written p' = written p \<and> signals p' = signals p \<and>
     (ret = SshNeedsPassword \<longrightarrow> is_prompt (ssh_prompt s') = Some True)"
proof (induction "length (reads p)" arbitrary: s p rule: less_induct)
  case less
  obtain q p1 where r: "readLine True p = Some (q, p1)"
    using less.prems by (auto simp: converseSsh.simps [of pw 2 0 s p] split: option.splits)
  have same: "written p1 = written p" "signals p1 = signals p"
    using readLine_written [OF r] readLine_signals [OF r] by simp_all
  show ?case
  proof (cases "\<exists>line. q = Some line \<and> line \<noteq> ''kdesu_stub'' \<and> is_prompt line = Some False")
    case False
    then show ?thesis
      using less.prems r same
      by (auto simp: converseSsh.simps [of pw 2 0 s p] unreadLine_def SshNeedsPassword_def
          split: option.splits if_splits bool.splits)
  next
    case True
    then obtain line where line: "q = Some line" "line \<noteq> ''kdesu_stub''" "is_prompt line = Some False" by blast
    then have "converseSsh pw 2 0 (s\<lparr>ssh_error := ssh_error s @ line @ [NL]\<rparr>) p1 = Some (ret, s', p')"
      using less.prems r by (simp add: converseSsh.simps [of pw 2 0 s p])
    from less.hyps [OF readLine_reads [OF r] this] same show ?thesis by simp
  qed
qed

text \<open>
  The password is written once at most, and the conversation returns when ssh falls silent at some
  time, there is a password to write and the question about the terminal is answered.
\<close>

lemma converseSsh_later:
  "converseSsh pw check state s p = Some (ret, s', p') \<Longrightarrow> state \<noteq> 0 \<Longrightarrow> written p' = written p"
proof (induction pw check state s p rule: converseSsh.induct)
  case (1 pw check state s p)
  then show ?case
    by (auto simp: converseSsh.simps [of pw check state s p] readLine_written split: option.splits if_splits)
qed

lemma converseSsh_written:
  "converseSsh pw check 0 s p = Some (ret, s', p') \<Longrightarrow>
    written p' = written p \<or> (\<exists>w. pw = Some w \<and> written p' = written p @ [c_str w, [NL]])"
proof (induction "length (reads p)" arbitrary: s p rule: less_induct)
  case less
  obtain q p1 where r: "readLine True p = Some (q, p1)"
    using less.prems by (auto simp: converseSsh.simps [of pw check 0 s p] split: option.splits)
  have w: "written p1 = written p" by (rule readLine_written [OF r])
  show ?case
  proof (cases "\<exists>line. q = Some line \<and> line \<noteq> ''kdesu_stub'' \<and> is_prompt line = Some False")
    case True
    then obtain line where "q = Some line" "line \<noteq> ''kdesu_stub''" "is_prompt line = Some False" by blast
    then have "converseSsh pw check 0 (s\<lparr>ssh_error := ssh_error s @ line @ [NL]\<rparr>) p1 = Some (ret, s', p')"
      using less.prems r by (simp add: converseSsh.simps [of pw check 0 s p])
    from less.hyps [OF readLine_reads [OF r] this] w show ?thesis by simp
  next
    case False
    have fed: "written p' = written p @ [c_str x, [NL]]"
      if "converseSsh pw check (Suc 0) s (write_password x q1) = Some (ret, s', p')" and "written q1 = written p" for x q1
      using converseSsh_later [OF that(1)] that(2) by (simp add: write_password_def write_fd_def)
    show ?thesis
      using False less.prems r w fed
      by (auto simp: converseSsh.simps [of pw check 0 s p] unreadLine_def waitSlave_def
          split: option.splits if_splits bool.splits)
  qed
qed

lemma converseSsh_returns:
  assumes "falls_silent (k + 2) p" and "check = 2 \<or> pw \<noteq> None \<and> (state = 0 \<longrightarrow> waitSlave_loop (slave_polls p) \<noteq> None)"
  shows "\<exists>ret s' p'. converseSsh pw check state s p = Some (ret, s', p') \<and> falls_silent k p'"
  using assms
proof (induction "pending p" arbitrary: p s state rule: less_induct)
  case less
  obtain q p1 where r: "readLine True p = Some (q, p1)" "length (reads p) = Suc (length (reads p1))"
    "q \<noteq> None \<longrightarrow> falls_silent (k + 2) p1 \<and> pending p1 < pending p \<and> pending p1 + length (bytes_of q) \<le> pending p"
    "0 < k + 2 \<longrightarrow> falls_silent (k + 2 - 1) p1" "slave_polls p1 = slave_polls p"
    using readLine_returns [OF less.prems(1), of True] by metis
  have silent: "falls_silent k p" "falls_silent k p1"
    using falls_silent_mono [OF less.prems(1), of k] falls_silent_mono [of "k + 2 - 1" p1 k] r(4) by simp_all
  note step = converseSsh.simps [of pw check state s p, unfolded r(1) option.case prod.case]
  show ?case
  proof (cases "\<not> state < 2 \<or> q = None")
    case True
    then show ?thesis using silent unfolding step by auto
  next
    case False
    then obtain line where q: "q = Some line" "state < 2" "falls_silent (k + 2) p1" "pending p1 < pending p" using r(3) by auto
    obtain b where b: "is_prompt line = Some b" by (simp add: is_prompt_iff)
    have again: "\<exists>ret s' p'. converseSsh pw check state t p1 = Some (ret, s', p') \<and> falls_silent k p'" for t
      using less.hyps [OF q(4,3), of state t] less.prems(2) r(5) by simp
    have later: "\<exists>ret s' p'. converseSsh pw check (state + 1) s p1 = Some (ret, s', p') \<and> falls_silent k p'"
      using less.hyps [OF q(4,3), of "state + 1" s] less.prems(2) by auto
    have fed: "\<exists>ret s' p'. converseSsh pw check (state + 1) s (write_password x (p1\<lparr>slave_polls := ps\<rparr>)) = Some (ret, s', p') \<and>
        falls_silent k p'" for x ps
      using less.hyps [of "write_password x (p1\<lparr>slave_polls := ps\<rparr>)" "state + 1" s] less.prems(2) q(3,4)
      by (auto simp: write_password_def write_fd_def falls_silent_def pending_def)
    have poll: "\<exists>ret ps. waitSlave p1 = Some (ret, p1\<lparr>slave_polls := ps\<rparr>)" if "state = 0" "check \<noteq> 2"
      using less.prems(2) r(5) that by (auto simp: waitSlave_def)
    have frame: "falls_silent k (p1\<lparr>slave_polls := ps\<rparr>)" for ps using silent(2) by (simp add: falls_silent_def pending_def)
    have unread: "falls_silent k (unreadLine line True p1)"
      by (rule unread_silent [OF less.prems(1) r(2)]) (use r(3) q(1,3) in \<open>simp_all add: falls_silent_def\<close>)
    show ?thesis
    proof (cases "state = 0")
      case True
      show ?thesis
      proof (cases "line = ''kdesu_stub'' \<or> \<not> b \<or> check = 2")
        case True
        then show ?thesis using \<open>state = 0\<close> q(1) again b unread silent(2) unfolding step by (cases b) auto
      next
        case False
        then obtain ret ps where "waitSlave p1 = Some (ret, p1\<lparr>slave_polls := ps\<rparr>)" using poll True by blast
        then show ?thesis using False True q(1) b less.prems(2) fed frame unfolding step by auto
      qed
    next
      case False
      then show ?thesis using q(1,2) later silent(2) unfolding step by auto
    qed
  qed
qed

text \<open>The whole of \<^verbatim>\<open>exec\<close>, with up to two waits for the child, when each meets its end.\<close>

lemma ssh_exec_returns:
  assumes "falls_silent (length w1 + length w2 + 3) p" and "ssh_waits E = [w1, w2]"
    and "list_ex decisive w1" and "list_ex decisive w2"
    and "check = 2 \<or> password \<noteq> None \<and> waitSlave_loop (slave_polls p) \<noteq> None"
  shows "\<exists>ret s' p'. ssh_exec E s password check p = Some (ret, s', p')"
proof -
  let ?p = "if check \<noteq> 0 then setTerminal True p else p"
  let ?n = "length w1 + length w2" and ?e = "''Waiting for forwarded connections to terminate''"
  have "falls_silent (?n + 1 + 2) ?p" "waitSlave_loop (slave_polls ?p) = waitSlave_loop (slave_polls p)"
    using assms(1) by (simp_all add: falls_silent_def pending_def)
  then obtain ret s1 p1 where c: "converseSsh password check 0 s ?p = Some (ret, s1, p1)" "falls_silent (?n + 1) p1"
    using converseSsh_returns [of "?n + 1" ?p check password 0 s] assms(5) by auto
  obtain iret p2 where st: "converseStub (ssh_display (ssh_stub_env E)) (ssh_proc s1) check p1 = Some (iret, p2)" "falls_silent ?n p2"
    using converseStub_returns [of ?n p1 "ssh_display (ssh_stub_env E)" "ssh_proc s1" check] c(2) by auto
  have quiet: "stays_quiet ?n p1" "stays_quiet ?n p2"
    using stays_quiet_mono [OF silent_quiet [OF c(2)], of ?n] silent_quiet [OF st(2)] by simp_all
  have first: "\<exists>r q'. ssh_wait 0 E q = Some (r, q') \<and> stays_quiet (length w2) q'" if "stays_quiet ?n q" for q
    using waitForChild_returns [OF that assms(3)] assms(2) by (simp add: ssh_wait_def)
  have second: "\<exists>r q'. ssh_wait 1 E q = Some (r, q')" if "stays_quiet (length w2) q" for q
    using waitForChild_returns [of w2 0 q] that assms(2,4) by (auto simp: ssh_wait_def)
  have finish: "\<exists>r s' q'. ssh_finish E check iret s1 p2 = Some (r, s', q')"
  proof (cases "iret = 1")
    case True
    obtain r q where q: "ssh_wait 0 E (kill_child SIGTERM p2) = Some (r, q)" "stays_quiet (length w2) q"
      using first [of "kill_child SIGTERM p2"] quiet by auto
    then show ?thesis using True second [of q] second [of "q\<lparr>m_exitString := ?e\<rparr>"] by (auto simp: ssh_finish_def Let_def)
  next
    case False
    then show ?thesis using first [of p2] first [of "p2\<lparr>m_exitString := ?e\<rparr>"] quiet(2) by (auto simp: ssh_finish_def Let_def)
  qed
  obtain r q where "ssh_wait 0 E (kill_child SIGTERM p1) = Some (r, q)"
    using first [of "kill_child SIGTERM p1"] quiet(1) by auto
  then show ?thesis using c(1) st(1) finish by (auto simp: ssh_exec_def Let_def)
qed


text \<open>
  A failure at the remote stub is lost: when the stub asks for something unknown the code
  kills ssh and waits for it, but then waits a second time and returns the result of that, which
  is 0 as there is no child any more; a check of the installation reports success as well.
\<close>

lemma ssh_failure_lost:
  assumes "ssh_waits E = [w1, [(Sel_none, Wait_ECHILD)]]" and "waitForChild w1 (kill_child SIGTERM p) = Some (r1, p1)"
  shows "map_option fst (ssh_finish E check 1 s p) = Some 0"
  using assms by (simp add: ssh_finish_def ssh_wait_def waitForChild_def checkPidExited_def P_Error_def)

end
