(* ===== verification/Cookie.thy ===== *)
theory Cookie
  imports Environ
begin

text \<open>
  The display and its authentication cookie, \<^verbatim>\<open>KCookie\<close> of \<^verbatim>\<open>src/src/kcookie.cpp\<close>: where the
  name of the display comes from, and how the line that \<^verbatim>\<open>xauth list\<close> prints is taken apart. The
  search for the program and what it prints are arguments (\<open>cookie_env\<close>).

  The lemmas show what the two byte arrays can be: the cookie is empty or two words with one
  blank between them, so that it always fits the line it is sent in.
\<close>

section \<open>The byte array operations\<close>

text \<open>
  \<^verbatim>\<open>simplified()\<close>: white space removed at both ends, every other run of it replaced by one
  blank. The words are collected first.
\<close>

function byte_words :: "bytes \<Rightarrow> bytes list" where
  "byte_words s =
     (let s = dropWhile isspace s in
      if s = [] then []
      else takeWhile (\<lambda>c. \<not> isspace c) s # byte_words (dropWhile (\<lambda>c. \<not> isspace c) s))"
  by pat_completeness auto
termination
proof (relation "measure length", simp)
  fix s r :: bytes
  assume r: "r = dropWhile isspace s" "r \<noteq> []"
  then have "\<not> isspace (hd r)" using hd_dropWhile by blast
  then have "length (dropWhile (\<lambda>c. \<not> isspace c) r) < length r"
    using r(2) by (cases r) (simp_all add: le_imp_less_Suc length_dropWhile_le)
  also have "length r \<le> length s" by (simp add: r(1) length_dropWhile_le)
  finally show "(dropWhile (\<lambda>c. \<not> isspace c) r, s) \<in> measure length" by simp
qed

declare byte_words.simps [simp del]

fun join_blank :: "bytes list \<Rightarrow> bytes" where
  "join_blank [] = []"
| "join_blank [w] = w"
| "join_blank (w # ws) = w @ CHR '' '' # join_blank ws"

definition simplified :: "bytes \<Rightarrow> bytes" where
  "simplified s = join_blank (byte_words s)"

text \<open>\<^verbatim>\<open>split(sep)\<close>: at every separator, so that there is always at least one part.\<close>

fun split_at :: "char \<Rightarrow> bytes \<Rightarrow> bytes list" where
  "split_at sep [] = [[]]"
| "split_at sep (c # cs) =
     (if c = sep then [] # split_at sep cs
      else case split_at sep cs of w # ws \<Rightarrow> (c # w) # ws | [] \<Rightarrow> [[c]])"

section \<open>KCookie\<close>

record cookie =
  c_display :: bytes
  c_displayAuth :: bytes

text \<open>
  \<open>k_x11\<close> is \<^verbatim>\<open>HAVE_X11\<close>; \<open>k_xauth\<close> the path of the program, empty if there is none;
  \<open>k_line\<close> the first line it prints for a display.
\<close>

record cookie_env =
  k_x11 :: bool
  k_environ :: environ
  k_xauth :: bytes
  k_started :: bool
  k_line :: "bytes \<Rightarrow> bytes"

definition cookie_display :: "cookie \<Rightarrow> bytes" where
  "cookie_display k = c_display k"

definition cookie_displayAuth :: "cookie \<Rightarrow> bytes" where
  "cookie_displayAuth k = c_displayAuth k"

definition query_display :: "bytes \<Rightarrow> bytes" where
  "query_display display =
     (let disp = display in if startsWith disp ''localhost:'' then remove_front disp 9 else disp)"

definition xauth_cookie :: "bytes \<Rightarrow> bytes" where
  "xauth_cookie line =
     (let output = simplified line in
      if output = [] then []
      else
        let lst = split_at (CHR '' '') output in
        if length lst \<noteq> 3 then [] else lst ! 1 @ CHR '' '' # lst ! 2)"

definition getXCookie :: "cookie_env \<Rightarrow> cookie" where
  "getXCookie K =
     (let display = (if k_x11 K then qgetenv ''DISPLAY'' (k_environ K) else qgetenv ''QWS_DISPLAY'' (k_environ K));
          wayland = qgetenv ''WAYLAND_DISPLAY'' (k_environ K)
      in if k_x11 K \<and> display = [] \<and> wayland \<noteq> [] then \<lparr>c_display = wayland, c_displayAuth = []\<rparr>
         else if display = [] then \<lparr>c_display = [], c_displayAuth = []\<rparr>
         else if \<not> k_x11 K then \<lparr>c_display = display, c_displayAuth = []\<rparr>
         else if k_xauth K = [] then \<lparr>c_display = display, c_displayAuth = []\<rparr>
         else if \<not> k_started K then \<lparr>c_display = display, c_displayAuth = []\<rparr>
         else \<lparr>c_display = display, c_displayAuth = xauth_cookie (k_line K (query_display display))\<rparr>)"

section \<open>Words\<close>

text \<open>The constructor, which asks for the cookie only where there is X11.\<close>

definition new_cookie :: "cookie_env \<Rightarrow> cookie" where
  "new_cookie K = (if k_x11 K then getXCookie K else \<lparr>c_display = [], c_displayAuth = []\<rparr>)"

definition word_ok :: "bytes \<Rightarrow> bool" where
  "word_ok w \<longleftrightarrow> w \<noteq> [] \<and> (\<forall>c \<in> set w. \<not> isspace c)"

lemma blank_space [simp]: "isspace (CHR '' '')"
  by (simp add: ctype)

lemma byte_words_ok: "w \<in> set (byte_words s) \<Longrightarrow> word_ok w \<and> set w \<subseteq> set s"
proof (induction s rule: byte_words.induct)
  case (1 s)
  let ?r = "dropWhile isspace s"
  have sub: "set ?r \<subseteq> set s" by (auto dest: set_dropWhileD)
  show ?case
  proof (cases "?r = []")
    case True
    with "1.prems" show ?thesis by (simp add: byte_words.simps [of s])
  next
    case False
    then have h: "\<not> isspace (hd ?r)" using hd_dropWhile by blast
    have "byte_words s = takeWhile (\<lambda>c. \<not> isspace c) ?r # byte_words (dropWhile (\<lambda>c. \<not> isspace c) ?r)"
      using False by (subst byte_words.simps) (simp only: Let_def if_False)
    with "1.prems" consider "w = takeWhile (\<lambda>c. \<not> isspace c) ?r"
      | "w \<in> set (byte_words (dropWhile (\<lambda>c. \<not> isspace c) ?r))"
      by auto
    then show ?thesis
    proof cases
      case 1
      then show ?thesis
        using False h sub by (cases ?r) (auto simp: word_ok_def dest: set_takeWhileD)
    next
      case 2
      from "1.IH" [OF refl False this] sub show ?thesis by (auto dest: set_dropWhileD)
    qed
  qed
qed

lemma byte_words_join:
  "\<forall>w \<in> set ws. word_ok w \<Longrightarrow> byte_words (join_blank ws) = ws"
proof (induction ws rule: join_blank.induct)
  case 1
  then show ?case by (simp add: byte_words.simps)
next
  case (2 w)
  then obtain c cs where w: "w = c # cs" "\<not> isspace c" "\<forall>c \<in> set cs. \<not> isspace c" by (cases w) (auto simp: word_ok_def)
  have d: "dropWhile (\<lambda>c. \<not> isspace c) cs = []" using w by auto
  have "byte_words (dropWhile (\<lambda>c. \<not> isspace c) cs) = []" unfolding d by (simp add: byte_words.simps)
  moreover have "takeWhile (\<lambda>c. \<not> isspace c) cs = cs" using w by auto
  ultimately show ?case using w by (simp add: byte_words.simps [of "c # cs"])
next
  case (3 w v vs)
  then obtain c cs where w: "w = c # cs" "\<not> isspace c" "\<forall>c \<in> set cs. \<not> isspace c" by (cases w) (auto simp: word_ok_def)
  let ?r = "join_blank (v # vs)"
  have skip: "byte_words (CHR '' '' # ?r) = byte_words ?r"
    by (simp add: byte_words.simps [of "CHR '' '' # ?r"] byte_words.simps [of ?r])
  have "takeWhile (\<lambda>c. \<not> isspace c) (cs @ CHR '' '' # ?r) = cs"
    "dropWhile (\<lambda>c. \<not> isspace c) (cs @ CHR '' '' # ?r) = CHR '' '' # ?r"
    using w(3) by (intro takeWhile_append_stop dropWhile_append_stop; simp)+
  then show ?case
    using 3 w skip by (simp add: byte_words.simps [of "c # cs @ CHR '' '' # ?r"])
qed

lemma split_at_nonempty [simp]: "split_at sep s \<noteq> []"
  by (cases s) (auto split: list.split)

lemma split_at_word: "sep \<notin> set w \<Longrightarrow> split_at sep w = [w]"
  by (induction w) auto

lemma split_at_append: "sep \<notin> set w \<Longrightarrow> split_at sep (w @ sep # s) = w # split_at sep s"
  by (induction w) auto

lemma split_join_blank:
  "\<forall>w \<in> set ws. word_ok w \<Longrightarrow> ws \<noteq> [] \<Longrightarrow> split_at (CHR '' '') (join_blank ws) = ws"
proof (induction ws rule: join_blank.induct)
  case (2 w)
  then have "CHR '' '' \<notin> set w" by (auto simp: word_ok_def)
  then show ?case by (simp add: split_at_word)
next
  case (3 w v vs)
  then have "CHR '' '' \<notin> set w" by (auto simp: word_ok_def)
  then show ?case using 3 by (simp add: split_at_append)
qed simp

lemma join_blank_Nil: "\<forall>w \<in> set ws. word_ok w \<Longrightarrow> join_blank ws = [] \<longleftrightarrow> ws = []"
  by (induction ws rule: join_blank.induct) (auto simp: word_ok_def)

text \<open>What the parser of the listing does: three words, of which the last two are the cookie.\<close>

lemma xauth_cookie_words:
  "xauth_cookie line = (case byte_words line of [d, n, k] \<Rightarrow> n @ CHR '' '' # k | _ \<Rightarrow> [])"
proof -
  have ok: "\<forall>w \<in> set (byte_words line). word_ok w" using byte_words_ok by blast
  show ?thesis
  proof (cases "byte_words line = []")
    case True
    then show ?thesis by (simp add: xauth_cookie_def simplified_def)
  next
    case False
    then have "split_at (CHR '' '') (simplified line) = byte_words line" "simplified line \<noteq> []"
      using split_join_blank [OF ok] join_blank_Nil [OF ok] by (simp_all add: simplified_def)
    then show ?thesis
      using False by (auto simp: xauth_cookie_def eval_nat_numeral split: list.splits)
  qed
qed

text \<open>The three words of a listing, however they are spaced, come back.\<close>

lemma xauth_cookie_result:
  assumes "byte_words line = [d, n, k]"
  shows "xauth_cookie line = n @ CHR '' '' # k" and "word_ok n" and "word_ok k"
  using assms byte_words_ok [of n line] byte_words_ok [of k line] by (simp_all add: xauth_cookie_words)

lemma xauth_cookie_shape:
  "xauth_cookie line = [] \<or>
     (\<exists>n k. xauth_cookie line = n @ CHR '' '' # k \<and> word_ok n \<and> word_ok k \<and> set (n @ k) \<subseteq> set line)"
  using byte_words_ok [of _ line] by (auto simp: xauth_cookie_words split: list.split) blast

end
