(* ===== verification/Handover.thy ===== *)
theory Handover
  imports Roundtrip StubMain Launch Su Ssh Cookie
begin

text \<open>
  From the forked child of the daemon to the shell: what the child does with its job (the last
  lines of the case of EXEC in \<^verbatim>\<open>src/src/kdesud/handler.cpp\<close>), and how the conversations with
  \<^verbatim>\<open>su\<close> and with \<^verbatim>\<open>kdesu_stub\<close> follow each other on one terminal. \<open>with_cookie\<close> puts the display
  and the X cookie that \<^verbatim>\<open>StubProcess\<close> found into what it tells the stub. The lemmas put the parts of the
  development together: the command, user and environment of the message are those that the
  stub reads behind the password.
\<close>

section \<open>The display of the stub\<close>

text \<open>\<^verbatim>\<open>StubProcess\<close> gives the stub the display and the cookie it has found when it was made.\<close>

definition process_display :: "cookie \<Rightarrow> bytes" where
  "process_display m_cookie = cookie_display m_cookie"

definition process_displayAuth :: "bool \<Rightarrow> cookie \<Rightarrow> bytes" where
  "process_displayAuth x11 m_cookie = (if x11 then cookie_displayAuth m_cookie else [])"

definition with_cookie :: "cookie_env \<Rightarrow> stub_env \<Rightarrow> stub_env" where
  "with_cookie K E =
     (let m_cookie = new_cookie K
      in E\<lparr>e_display := process_display m_cookie, e_displayAuth := process_displayAuth (k_x11 K) m_cookie\<rparr>)"

lemma with_cookie_simps:
  "e_displayAuth (with_cookie K E) = (if k_x11 K then c_displayAuth (getXCookie K) else [])"
  "e_display (with_cookie K E) = (if k_x11 K then c_display (getXCookie K) else [])"
  by (simp_all add: with_cookie_def process_display_def process_displayAuth_def new_cookie_def cookie_display_def
      cookie_displayAuth_def Let_def)

text \<open>The stub registers the cookie under the name under which it was asked for.\<close>

lemma query_add_display: "query_display d = add_display d"
proof -
  have "startsWith d ''localhost:'' \<longleftrightarrow> take 10 d = ''localhost:''"
    by (simp add: startsWith_iff prefix_take_iff numeral_eq_Suc)
  then show ?thesis by (simp add: query_display_def add_display_def remove_front_def Let_def)
qed

lemma stub_display_registers:
  "stub_display Y vals v = Inr v' \<Longrightarrow> vals ! 1 \<noteq> ''no'' \<Longrightarrow> vals ! 2 \<noteq> [] \<Longrightarrow>
    v_ran v' = v_ran v @ [(''xauth >/dev/null 2>&1'', v_cred v, ''add '' @ query_display (vals ! 1) @ '' '' @ vals ! 2 @ [NL])]"
  by (auto simp: stub_display_def stub_cookie_def run_program_def query_add_display Let_def split: option.splits if_splits)

section \<open>The child of the daemon\<close>

text \<open>
  \<open>built_in\<close> and \<open>entry\<close> choose the program as in the constructor of \<^verbatim>\<open>SuProcess\<close>;
  \<^verbatim>\<open>pass.data()\<close> is never the null pointer. The result is the exit status of the child, and the
  terminal afterwards.
\<close>

record job_env =
  jb_built_in :: bytes
  jb_entry :: bytes
  jb_su :: su_env
  jb_ssh :: ssh_env

definition run_job :: "job_env \<Rightarrow> child_job \<Rightarrow> pty \<Rightarrow> (int \<times> pty) option" where
  "run_job J job p =
     (case job of
        SuJob proc env pass \<Rightarrow>
          su_exec (jb_su J) (choose_superUserCommand (jb_built_in J) (jb_entry J)) proc
            (Some (bytes_of pass)) NoCheck (setEnvironment env p)
      | SshJob proc host pass \<Rightarrow>
          (let ssh = setHost host ((new_ssh [] [] [])\<lparr>ssh_proc := proc\<rparr>)
           in map_option (\<lambda>(ret, s, p). (ret, p)) (ssh_exec (jb_ssh J) ssh (Some (bytes_of pass)) NoCheck p)))"

section \<open>A conversation that succeeds\<close>

text \<open>A read that finds nothing.\<close>

definition says_nothing :: read_call where
  "says_nothing = \<lparr>fl_get = 0, fl_set_ok = True, read_answers = [RecvError]\<rparr>"

text \<open>A read that finds some bytes, not necessarily whole lines; a prompt has no newline.\<close>

definition hears :: "bytes \<Rightarrow> read_call" where
  "hears d = \<lparr>fl_get = 0, fl_set_ok = True, read_answers = [Received d]\<rparr>"

lemma says_hears: "says l = hears (l @ [NL])"
  by (simp add: says_def hears_def)

lemma readAll_calls:
  "reads p = hears d # cs \<Longrightarrow> readAll b p = Some (inputBuffer p @ d, p\<lparr>inputBuffer := [], reads := cs\<rparr>)"
  "reads p = says_nothing # cs \<Longrightarrow> readAll b p = Some (inputBuffer p, p\<lparr>inputBuffer := [], reads := cs\<rparr>)"
  by (simp_all add: readAll_def hears_def says_nothing_def set_blocking_def Let_def)

lemma readLine_hears:
  assumes "inputBuffer p = []" "reads p = hears d # cs" "NL \<notin> set d" "d \<noteq> []"
  shows "readLine b p = Some (Some d, p\<lparr>reads := cs\<rparr>)"
  using readAll_calls(1) [OF assms(2), of b] assms by (simp add: readLine_def)

lemma prompt_line:
  assumes "is_prompt prompt = Some True"
  shows "prompt \<noteq> ''kdesu_stub''" and "prompt \<noteq> []"
proof -
  from assms have "CHR '':'' \<in> set prompt" by (auto simp: is_prompt_iff)
  then show "prompt \<noteq> ''kdesu_stub''" "prompt \<noteq> []" by auto
qed

lemma write_password_frame [simp]:
  "inputBuffer (write_password pw p) = inputBuffer p" "reads (write_password pw p) = reads p"
  "more_output (write_password pw p) = more_output p" "extra_env (write_password pw p) = extra_env p"
  by (simp_all add: write_password_def write_fd_def)

text \<open>The prompt is answered by the password.\<close>

lemma converseSU_prompt:
  assumes "inputBuffer p = []" and "reads p = hears prompt # cs" and "more_output p = False # ms"
    and "waitSlave_loop (slave_polls p) = Some (0, ps)" and "is_prompt prompt = Some True" and "NL \<notin> set prompt"
  shows "converseSU (Some pw) WaitForPrompt p =
    converseSU (Some pw) CheckStar (write_password pw (p\<lparr>reads := cs, more_output := ms, slave_polls := ps\<rparr>))"
proof -
  let ?p1 = "p\<lparr>reads := cs\<rparr>"
  have r: "readLine True p = Some (Some prompt, ?p1)"
    by (rule readLine_hears [OF assms(1,2,6) prompt_line(2) [OF assms(5)]])
  have w: "waitSlave (?p1\<lparr>more_output := ms\<rparr>) = Some (0, ?p1\<lparr>more_output := ms, slave_polls := ps\<rparr>)"
    using assms(4) by (simp add: waitSlave_def)
  show ?thesis using assms(3,5) prompt_line(1) [OF assms(5)] w by (simp add: converseSU.simps [of _ WaitForPrompt p] r)
qed

lemma converseSU_password:
  assumes "inputBuffer p = []" and "reads p = hears prompt # says [] # says ''kdesu_stub'' # cs"
    and "more_output p = False # ms" and "waitSlave_loop (slave_polls p) = Some (0, ps)"
    and "is_prompt prompt = Some True" and "NL \<notin> set prompt"
  shows "converseSU (Some pw) WaitForPrompt p =
    Some (SU_ok, unreadLine ''kdesu_stub'' True
      (write_password pw (p\<lparr>reads := cs, more_output := ms, slave_polls := ps\<rparr>)))"
proof -
  let ?p2 = "write_password pw (p\<lparr>reads := says [] # says ''kdesu_stub'' # cs, more_output := ms, slave_polls := ps\<rparr>)"
  let ?p3 = "?p2\<lparr>reads := says ''kdesu_stub'' # cs\<rparr>"
  have r2: "readLine True ?p2 = Some (Some [], ?p3)"
    using readLine_says [of ?p2 "[]" "says ''kdesu_stub'' # cs"] assms(1) by simp
  have r3: "readLine True ?p3 = Some (Some ''kdesu_stub'', ?p3\<lparr>reads := cs\<rparr>)"
    using readLine_says [of ?p3 "''kdesu_stub''" cs] assms(1) by simp
  have c: "contains [] '':'' = False" "trimmed [] = []" "contains ''kdesu_stub'' '':'' = False" by code_simp+
  have "converseSU (Some pw) HandleStub ?p3 = Some (SU_ok, unreadLine ''kdesu_stub'' True (?p3\<lparr>reads := cs\<rparr>))"
    using c(3) by (simp add: converseSU.simps [of _ HandleStub ?p3] r3)
  moreover have "converseSU (Some pw) CheckStar ?p2 = converseSU (Some pw) HandleStub ?p3"
    by (simp add: converseSU.simps [of _ CheckStar ?p2] r2 c)
  moreover have "?p3\<lparr>reads := cs\<rparr> = write_password pw (p\<lparr>reads := cs, more_output := ms, slave_polls := ps\<rparr>)"
    by (simp add: write_password_def write_fd_def)
  ultimately show ?thesis using converseSU_prompt [OF assms] by simp
qed

text \<open>The header is read back from the buffer, in which it was put.\<close>

lemma header_put_back:
  assumes "inputBuffer p = []" and "reads p = says_nothing # cs"
  shows "\<exists>q. stub_header 0 (unreadLine ''kdesu_stub'' True p) = Some (None, q) \<and> inputBuffer q = [] \<and>
    extra_env q = extra_env p \<and> reads q = cs \<and> sent_bytes q = sent_bytes p @ ''ok'' @ [NL]"
proof -
  let ?p = "unreadLine ''kdesu_stub'' True p"
  have buf: "inputBuffer ?p = ''kdesu_stub'' @ [NL]" "reads ?p = says_nothing # cs" "extra_env ?p = extra_env p"
    using assms by (simp_all add: unreadLine_def)
  have "readAll True ?p = Some (''kdesu_stub'' @ [NL], ?p\<lparr>inputBuffer := [], reads := cs\<rparr>)"
    using buf by (simp add: readAll_def says_nothing_def set_blocking_def)
  moreover have "indexOf_char (''kdesu_stub'' @ [NL]) NL = 10" by code_simp
  ultimately have r: "readLine True ?p = Some (Some ''kdesu_stub'', ?p\<lparr>inputBuffer := [], reads := cs\<rparr>)"
    by (simp add: readLine_def left_def remove_front_def)
  have "sent_bytes (?p\<lparr>inputBuffer := [], reads := cs\<rparr>) = sent_bytes p" by (simp add: sent_bytes_def unreadLine_def)
  then show ?thesis
    using r buf(3) by (simp add: stub_header.simps [of 0 ?p] enableLocalEcho_def) (simp add: sent_bytes_def)
qed

text \<open>Password and parameters on one terminal: what is written is the password's line and the answers.\<close>

lemma su_hands_over:
  assumes p: "inputBuffer p = []" "written p = []" "reads p = hears prompt # says [] # says ''kdesu_stub'' # says_nothing #
      map says (tl stub_params @ [''environment'', ''end''])"
    "more_output p = False # ms" "waitSlave_loop (slave_polls p) = Some (0, ps)"
    and prompt: "is_prompt prompt = Some True" "NL \<notin> set prompt"
    and su: "su_command E \<noteq> []" "su_started E"
    and vals: "\<forall>v \<in> set (stub_values (su_stub_env E) s (extra_env p)). line_safe v"
    and env: "\<forall>v \<in> set (extra_env p). env_sendable v \<and> v \<noteq> []"
  shows "\<exists>q rest. su_exec E cmd s (Some pw) NoCheck p = waitForChild (su_wait E) q \<and>
    sent_bytes q = c_str pw @ [NL] @ rest \<and>
    stub_read rest = Inr (''ok'' # stub_values (su_stub_env E) s (extra_env p), extra_env p, [])"
proof -
  let ?p = "enableLocalEcho False p"
  let ?q = "write_password pw (?p\<lparr>reads := says_nothing # map says (tl stub_params @ [''environment'', ''end'']),
    more_output := ms, slave_polls := ps\<rparr>)"
  have su1: "converseSU (Some pw) WaitForPrompt ?p = Some (SU_ok, unreadLine ''kdesu_stub'' True ?q)"
    by (rule converseSU_password [OF _ _ _ _ prompt]) (use p in \<open>simp_all add: enableLocalEcho_def\<close>)
  have "inputBuffer ?q = []" "reads ?q = says_nothing # map says (tl stub_params @ [''environment'', ''end''])"
    and e: "extra_env ?q = extra_env p" and b: "sent_bytes ?q = c_str pw @ [NL]"
    using p by (simp_all add: write_password_def write_fd_def enableLocalEcho_def sent_bytes_def)
  from header_put_back [OF this(1,2)] obtain r where
    r: "stub_header 0 (unreadLine ''kdesu_stub'' True ?q) = Some (None, r)" "inputBuffer r = []"
    "extra_env r = extra_env p" "reads r = map says (tl stub_params @ [''environment'', ''end''])"
    "sent_bytes r = (c_str pw @ [NL]) @ ''ok'' @ [NL]"
    using e b by auto
  obtain q d where q: "stub_requests (su_stub_env E) s r = Some (0, q)" "sent_bytes q = sent_bytes r @ d"
    "stub_read ((''ok'' @ [NL]) @ d) = Inr (''ok'' # stub_values (su_stub_env E) s (extra_env p), extra_env p, [])"
    using stub_answers_read [OF r(2,4), of "su_stub_env E" s] vals env unfolding r(3) by blast
  have "converseStub (su_stub_env E) s NoCheck (unreadLine ''kdesu_stub'' True ?q) = Some (0, q)"
    using r(1) q(1) by (simp add: converseStub_def NoCheck_def)
  then have "su_exec E cmd s (Some pw) NoCheck p = waitForChild (su_wait E) q"
    using su su1 by (simp add: su_exec_def NoCheck_def NeedPassword_def Install_def SU_ok_def SU_error_def Let_def)
  moreover have "sent_bytes q = c_str pw @ [NL] @ ((''ok'' @ [NL]) @ d)" using q(2) r(5) by simp
  ultimately show ?thesis using q(3) by blast
qed

end
