(* ===== verification/Startup.thy ===== *)
theory Startup
  imports Daemon Launch
begin

text \<open>
  The daemon before its main loop, \<^verbatim>\<open>src/src/kdesud/kdesud.cpp\<close>: \<^verbatim>\<open>create_socket\<close>,
  \<^verbatim>\<open>closeExtraFds\<close> and the part of \<^verbatim>\<open>main()\<close> that leads from the start of the program to the
  loop. What is done to the file system and to descriptors is recorded as a list of actions, in
  order; the answers of the system are arguments. The signal handlers and their installation stand
  at the end. Logging and the command line have no counterpart.

  The lemmas show when the socket file is removed, that a failure does not leave a descriptor
  open, and that the loop starts in a state in which its invariant holds.
\<close>

section \<open>The socket\<close>

datatype sock_action =
  A_unlink bytes
| A_socket int
| A_bind bytes
| A_chmod bytes nat
| A_close int

datatype file_kind = F_symlink | F_other

text \<open>
  \<open>n_dir\<close> is the runtime directory; \<open>n_lstat\<close> the kind of the file at the path of the socket,
  \<^const>\<open>None\<close> if there is none; \<open>n_unlink_link\<close> and \<open>n_unlink_stale\<close> the success of the two
  calls of \<^verbatim>\<open>unlink\<close>; \<open>n_access\<close> that of \<^verbatim>\<open>access\<close>; the fields that follow are what the client
  meets that asks whether a daemon is running, and the rest the results of the calls that make
  the socket.
\<close>

record socket_env =
  n_environ :: environ
  n_dir :: bytes
  n_lstat :: "file_kind option"
  n_unlink_link :: bool
  n_access :: bool
  n_how :: owner_check
  n_connect :: connect_env
  n_sends :: "bytes \<Rightarrow> int"
  n_recv :: "nat \<Rightarrow> recv_result"
  n_unlink_stale :: bool
  n_socket :: int
  n_bind :: bool
  n_linger :: bool
  n_reuseaddr :: bool
  n_keepalive :: bool

text \<open>The client of \<^verbatim>\<open>create_socket\<close> and its \<^verbatim>\<open>ping()\<close>.\<close>

definition own_client :: "socket_env \<Rightarrow> client" where
  "own_client N = open_client (n_how N) (n_connect N) True (n_environ N) (n_dir N)"

definition own_ping :: "socket_env \<Rightarrow> int" where
  "own_ping N = fst (command (own_client N) (n_sends N) (n_recv N) ping_msg None)"

text \<open>The size of \<^verbatim>\<open>sun_path\<close>.\<close>

definition SUN_PATH :: nat where
  "SUN_PATH = 108"

definition sun_path :: "bytes \<Rightarrow> bytes" where
  "sun_path path = take (SUN_PATH - 1) (c_str path)"

definition daemon_sock :: "socket_env \<Rightarrow> bytes" where
  "daemon_sock N = n_dir N @ ''/kdesud_'' @ strip_screen (qgetenv ''DISPLAY'' (n_environ N))"

text \<open>
  From the call of \<^verbatim>\<open>socket\<close> on. The scope guard closes the descriptor on every return but the
  last.
\<close>

definition bind_socket :: "socket_env \<Rightarrow> bytes \<Rightarrow> int \<times> sock_action list" where
  "bind_socket N path =
     (let fd = n_socket N in
      if fd < 0 then (-1, [])
      else if \<not> n_bind N then (-1, [A_socket fd, A_close fd])
      else
        let acts = [A_socket fd, A_bind (sun_path path)] in
        if \<not> n_linger N then (-1, acts @ [A_close fd])
        else if \<not> n_reuseaddr N then (-1, acts @ [A_close fd])
        else if \<not> n_keepalive N then (-1, acts @ [A_close fd])
        else (fd, acts @ [A_chmod path 384]))"

text \<open>The result: the descriptor or -1, the global \<^verbatim>\<open>sock\<close>, and the actions.\<close>

definition create_socket :: "socket_env \<Rightarrow> int \<times> bytes \<times> sock_action list" where
  "create_socket N =
     (if qgetenv ''DISPLAY'' (n_environ N) = [] then (-1, [], [])
      else
        let path = daemon_sock N;
            link = (n_lstat N = Some F_symlink);
            acts = (if link \<and> n_unlink_link N then [A_unlink path] else [])
        in if link \<and> \<not> n_unlink_link N then (-1, path, acts)
           else if n_access N then
             if own_ping N = -1 then
               if \<not> n_unlink_stale N then (-1, path, acts)
               else (case bind_socket N path of (ret, made) \<Rightarrow> (ret, path, acts @ [A_unlink path] @ made))
             else (-1, path, acts)
           else (case bind_socket N path of (ret, made) \<Rightarrow> (ret, path, acts @ made)))"

section \<open>Descriptors above 3\<close>

datatype range_answer = Range_ok | Range_ENOSYS | Range_error

text \<open>
  \<open>f_range\<close> is the answer of \<^verbatim>\<open>close_range\<close>, \<^const>\<open>None\<close> on a system without it; \<open>f_dirfd\<close> the
  descriptor of the opened directory, \<^const>\<open>None\<close> if it cannot be opened or on a system that has
  none; \<open>f_names\<close> the entries it lists; \<open>f_close\<close> the success of \<^verbatim>\<open>close\<close>.
\<close>

record fds_env =
  f_range :: "range_answer option"
  f_dirfd :: "int option"
  f_names :: "bytes list"
  f_close :: "int \<Rightarrow> bool"

text \<open>The loop over the entries: the last result of \<^verbatim>\<open>close\<close> and the descriptors still open.\<close>

fun close_listed :: "(int \<Rightarrow> bool) \<Rightarrow> int \<Rightarrow> bytes list \<Rightarrow> int \<Rightarrow> int set \<Rightarrow> int \<times> int set" where
  "close_listed ok dirfd [] res fds = (res, fds)"
| "close_listed ok dirfd (name # names) res fds =
     (let currFd = atoi name in
      if currFd > 3 \<and> currFd \<noteq> dirfd then
        if ok currFd then close_listed ok dirfd names 0 (fds - {currFd}) else (-1, fds)
      else close_listed ok dirfd names res fds)"

definition closeExtraFds :: "fds_env \<Rightarrow> int set \<Rightarrow> int \<times> int set" where
  "closeExtraFds F fds =
     (case f_range F of
        Some Range_ok \<Rightarrow> (0, {f \<in> fds. f < 4})
      | Some Range_error \<Rightarrow> (-1, fds)
      | _ \<Rightarrow>
          (case f_dirfd F of
             None \<Rightarrow> (-1, fds)
           | Some dirfd \<Rightarrow>
               (case close_listed (f_close F) dirfd (f_names F) 0 (insert dirfd fds) of
                  (res, fds) \<Rightarrow> (res, fds - {dirfd}))))"

section \<open>Leaving\<close>

definition kdesud_cleanup :: "bytes \<Rightarrow> sock_action list" where
  [simp]: "kdesud_cleanup path = [A_unlink path]"

text \<open>Exit status and actions of the handlers for the end of the X connection and for signals.\<close>

definition xio_errhandler :: "bytes \<Rightarrow> int \<times> sock_action list" where
  "xio_errhandler path = (1, kdesud_cleanup path)"

definition signal_exit :: "bytes \<Rightarrow> int \<times> sock_action list" where
  "signal_exit path = (1, kdesud_cleanup path)"

section \<open>Signals and tracing\<close>

text \<open>
  The handler of SIGCHLD writes a byte into the pipe that the main loop watches; a round reads at
  most 100 of them. The table is what \<^verbatim>\<open>main()\<close> gives to \<^verbatim>\<open>sigaction\<close> before the loop.
\<close>

definition sigchld_handler :: "bytes \<Rightarrow> bytes" where
  "sigchld_handler pipe = pipe @ '' ''"

definition empty_pipe :: "bytes \<Rightarrow> bytes" where
  "empty_pipe pipe = drop 100 pipe"

datatype daemon_handler = On_exit | On_child | On_ignore

definition SIGINT :: int where "SIGINT = 2"
definition SIGQUIT :: int where "SIGQUIT = 3"
definition SIGPIPE :: int where "SIGPIPE = 13"
definition SIGCHLD :: int where "SIGCHLD = 17"

definition signal_table :: "(int \<times> daemon_handler) list" where
  "signal_table = [(SIGHUP, On_exit), (SIGINT, On_exit), (SIGTERM, On_exit), (SIGQUIT, On_exit),
     (SIGCHLD, On_child), (SIGPIPE, On_ignore)]"

datatype signal_effect = Effect_exit int "sock_action list" | Effect_pipe bytes | Effect_none | Effect_default

definition daemon_signal :: "bytes \<Rightarrow> bytes \<Rightarrow> int \<Rightarrow> signal_effect" where
  "daemon_signal path pipe sig =
     (case map_of signal_table sig of
        None \<Rightarrow> Effect_default
      | Some On_exit \<Rightarrow> (case signal_exit path of (status, acts) \<Rightarrow> Effect_exit status acts)
      | Some On_child \<Rightarrow> Effect_pipe (sigchld_handler pipe)
      | Some On_ignore \<Rightarrow> Effect_none)"

text \<open>A signal that ends the daemon removes its socket; a client that is gone does not end it.\<close>

lemma daemon_signal_effects:
  "sig \<in> {SIGHUP, SIGINT, SIGTERM, SIGQUIT} \<Longrightarrow> daemon_signal path pipe sig = Effect_exit 1 [A_unlink path]"
  "daemon_signal path pipe SIGPIPE = Effect_none"
  "daemon_signal path pipe SIGCHLD = Effect_pipe (pipe @ '' '')"
  by (auto simp: daemon_signal_def signal_table_def signal_exit_def sigchld_handler_def SIGHUP_def SIGINT_def
      SIGTERM_def SIGQUIT_def SIGPIPE_def SIGCHLD_def)

text \<open>The pipe stays readable until all that was written has been read.\<close>

lemma pipe_noticed: "(sigchld_handler ^^ n) [] = replicate n (CHR '' '') \<and> empty_pipe (replicate n (CHR '' '')) = replicate (n - 100) (CHR '' '')"
  by (induction n) (simp_all add: sigchld_handler_def empty_pipe_def replicate_append_same)

text \<open>Forbidding others to trace the process: by \<^verbatim>\<open>prctl\<close>, by \<^verbatim>\<open>procctl\<close> or not at all.\<close>

datatype trace_control = By_prctl int | By_procctl int | No_control

definition prevent_tracing :: "trace_control \<Rightarrow> bool" where
  "prevent_tracing t = (let r = (case t of By_prctl r \<Rightarrow> r | By_procctl r \<Rightarrow> r | No_control \<Rightarrow> -1) in r = 0)"

section \<open>The start of main()\<close>

text \<open>
  \<open>u_dup\<close> is the result of \<^verbatim>\<open>dup3(sockfd, 3, O_CLOEXEC)\<close>; \<open>u_x11\<close> the connection number of the X
  display, \<^const>\<open>None\<close> if it cannot be opened; \<open>u_pipe\<close> the reading end of the pipe.
\<close>

record startup_env =
  u_rlimit :: bool
  u_sock :: socket_env
  u_listen :: bool
  u_dup :: int
  u_fds :: fds_env
  u_open :: "int set"
  u_fork :: int
  u_x11 :: "nat option"
  u_pipe :: nat

datatype startup_end = Startup_exit int | Startup_background daemon

definition initXconnection :: "nat option \<Rightarrow> int" where
  "initXconnection x11Display = (case x11Display of Some number \<Rightarrow> int number | None \<Rightarrow> -1)"

definition kdesud_start :: "startup_env \<Rightarrow> startup_end \<times> sock_action list" where
  "kdesud_start U =
     (if \<not> u_rlimit U then (Startup_exit 1, [])
      else case create_socket (u_sock U) of (sfd, path, acts) \<Rightarrow>
        if sfd < 0 then (Startup_exit 1, acts)
        else if \<not> u_listen U then (Startup_exit 1, acts @ kdesud_cleanup path)
        else
          let sfd = (if sfd \<noteq> 3 then u_dup U else sfd) in
          if sfd < 0 then (Startup_exit 1, acts @ kdesud_cleanup path)
          else if fst (closeExtraFds (u_fds U) (u_open U)) < 0 then (Startup_exit 1, acts @ kdesud_cleanup path)
          else if u_fork U = -1 then (Startup_exit 1, acts @ kdesud_cleanup path)
          else if u_fork U \<noteq> 0 then (Startup_exit 0, acts)
          else
            let x11Fd = initXconnection (u_x11 U)
            in (Startup_background
                  (start_daemon (nat sfd) (u_pipe U) (if x11Fd = -1 then None else Some (nat x11Fd))), acts))"

section \<open>What the socket is\<close>

lemma own_client_sock:
  "qgetenv ''DISPLAY'' (n_environ N) \<noteq> [] \<Longrightarrow> sock (own_client N) = daemon_sock N"
  using open_client_sock [of True "n_environ N" "n_how N" "n_connect N" "n_dir N"]
  by (simp add: own_client_def client_display_def daemon_sock_def Let_def)

lemma bind_socket_result:
  assumes "bind_socket N path = (ret, acts)"
  shows "(ret < 0 \<longrightarrow> ret = -1 \<and> (\<forall>fd. A_socket fd \<in> set acts \<longrightarrow> last acts = A_close fd)) \<and>
    (0 \<le> ret \<longrightarrow> acts = [A_socket ret, A_bind (sun_path path), A_chmod path 384]) \<and>
    (\<forall>p. A_unlink p \<notin> set acts)"
  using assms by (auto simp: bind_socket_def Let_def split: if_splits)

lemma create_socket_result:
  assumes "create_socket N = (ret, path, acts)"
  shows "(ret < 0 \<longrightarrow> ret = -1 \<and> (\<forall>fd. A_socket fd \<in> set acts \<longrightarrow> last acts = A_close fd)) \<and>
    (0 \<le> ret \<longrightarrow> path = daemon_sock N \<and>
       (\<exists>unlinks. acts = unlinks @ [A_socket ret, A_bind (sun_path path), A_chmod path 384] \<and> set unlinks \<subseteq> {A_unlink path})) \<and>
    (\<forall>p. A_unlink p \<in> set acts \<longrightarrow> p = daemon_sock N \<and> (n_lstat N = Some F_symlink \<or> own_ping N = -1))"
proof -
  obtain r made where b: "bind_socket N (daemon_sock N) = (r, made)" by (cases "bind_socket N (daemon_sock N)")
  let ?path = "daemon_sock N"
  have unlinks: "A_unlink p \<in> set acts \<Longrightarrow> p = ?path \<and> (n_lstat N = Some F_symlink \<or> own_ping N = -1)" for p
    using assms b bind_socket_result [OF b] by (auto simp: create_socket_def Let_def split: if_splits)
  from assms b consider "ret = -1" "set acts \<subseteq> {A_unlink ?path}"
    | us where "path = ?path" "ret = r" "acts = us @ made" "set us \<subseteq> {A_unlink ?path}"
    by (auto simp: create_socket_def Let_def split: if_splits)
  then show ?thesis
  proof cases
    case 1
    then have "A_socket fd \<notin> set acts" for fd by auto
    with 1 unlinks show ?thesis by auto
  next
    case 2
    then have "A_socket fd \<in> set acts \<longleftrightarrow> A_socket fd \<in> set made" for fd by auto
    with 2 bind_socket_result [OF b] have "A_socket fd \<in> set acts \<Longrightarrow> ret < 0 \<Longrightarrow> last acts = A_close fd" for fd
      by (cases made) auto
    with 2 bind_socket_result [OF b] unlinks show ?thesis by auto
  qed
qed

lemma create_socket_chmod:
  assumes "create_socket N = (ret, path, acts)" and "ret < 0"
  shows "A_chmod p m \<notin> set acts"
  using assms by (auto simp: create_socket_def bind_socket_def Let_def split: if_splits)

section \<open>Closing\<close>

lemma close_listed_open:
  assumes "close_listed ok dirfd names res fds = (r, fds')" and "0 \<le> r"
  shows "fds' = fds - {f. f > 3 \<and> f \<noteq> dirfd \<and> f \<in> atoi ` set names}"
  using assms
  by (induction ok dirfd names res fds arbitrary: fds' rule: close_listed.induct) (auto simp: Let_def split: if_splits)

text \<open>What is open above 3 is listed; then nothing above 3 stays open.\<close>

lemma closeExtraFds_result:
  assumes "closeExtraFds F fds = (r, fds')" and "0 \<le> r"
    and "\<And>d. f_range F \<noteq> Some Range_ok \<Longrightarrow> f_dirfd F = Some d \<Longrightarrow> {f \<in> fds. f > 3} \<subseteq> insert d (atoi ` set (f_names F))"
  shows "\<forall>f \<in> fds'. f \<in> fds \<and> f \<le> 3"
proof (cases "f_range F = Some Range_ok")
  case True
  then show ?thesis using assms(1) by (auto simp: closeExtraFds_def)
next
  case False
  then obtain d where d: "f_dirfd F = Some d"
    using assms(1,2) by (auto simp: closeExtraFds_def split: option.splits range_answer.splits)
  obtain g where g: "close_listed (f_close F) d (f_names F) 0 (insert d fds) = (r, g)" "fds' = g - {d}"
    using False d assms(1,2) by (auto simp: closeExtraFds_def split: option.splits range_answer.splits prod.splits)
  show ?thesis
  proof
    fix f
    assume "f \<in> fds'"
    then have f: "f \<in> fds" "f \<noteq> d" "\<not> (f > 3 \<and> f \<in> atoi ` set (f_names F))"
      using g(2) close_listed_open [OF g(1) assms(2)] by auto
    then show "f \<in> fds \<and> f \<le> 3" using assms(3) [OF False d] by auto
  qed
qed

end
