(* ===== verification/Tests.thy ===== *)
theory Tests
  imports Handover
begin

text \<open>
  The tests of the repository as definitions: \<^verbatim>\<open>src/autotests/kdesutest.cpp\<close>, with the Python
  programs \<^verbatim>\<open>su\<close> and \<^verbatim>\<open>sudo\<close> beside it that stand in for the real ones, and
  \<^verbatim>\<open>src/src/kdesud/autotests/kdesudtest.cpp\<close>. A test is \<^const>\<open>None\<close> if it does not end and
  else tells whether it passes. The lemmas show that \<^verbatim>\<open>SuProcess::exec\<close> tells a right password
  from a wrong one when it talks to these programs, however the answer to a wrong one is cut into
  reads.
\<close>

section \<open>The programs su and sudo of the tests\<close>

definition fake_password :: bytes where
  "fake_password = ''ilovekde''"

datatype fake_state = F_NEW | F_SECOND | F_THIRD

text \<open>How one call of \<^verbatim>\<open>process()\<close> goes on after the password is read.\<close>

datatype fake_step = F_goes_on fake_state | F_runs_stub | F_exits int bytes

definition sudo_prompt :: bytes where
  "sudo_prompt = ''[sudo] password for jr: ''"

definition su_prompt :: bytes where
  "su_prompt = ''Password: ''"

text \<open>What it prints before it reads the password.\<close>

fun sudo_asks :: "fake_state \<Rightarrow> bytes" where
  "sudo_asks F_NEW = sudo_prompt"
| "sudo_asks F_SECOND = ''Sorry, try again.'' @ [NL] @ sudo_prompt"
| "sudo_asks F_THIRD = ''Sorry, try again.'' @ [NL] @ sudo_prompt"

fun sudo_process :: "fake_state \<Rightarrow> bytes \<Rightarrow> fake_step" where
  "sudo_process F_NEW r = (if r = fake_password then F_runs_stub else F_goes_on F_SECOND)"
| "sudo_process F_SECOND r = (if r = fake_password then F_exits 0 [] else F_goes_on F_THIRD)"
| "sudo_process F_THIRD r =
     (if r = fake_password then F_exits 0 [] else F_exits 1 (''sudo: 3 incorrect password attempts'' @ [NL]))"

definition su_process :: "bytes \<Rightarrow> fake_step" where
  "su_process r = (if r = fake_password then F_runs_stub else F_exits 1 (''su: Authentication failure'' @ [NL]))"

text \<open>
  The output that follows the first password: \<^verbatim>\<open>getpass\<close> ends the line of the prompt, and the
  stub starts with its header.
\<close>

definition after_password :: "fake_step \<Rightarrow> bytes" where
  "after_password step = [NL] @ (case step of
     F_goes_on st \<Rightarrow> sudo_asks st
   | F_exits status out \<Rightarrow> out
   | F_runs_stub \<Rightarrow> ''kdesu_stub'' @ [NL])"

section \<open>kdesutest.cpp\<close>

definition MYPASSWORD :: bytes where
  "MYPASSWORD = ''ilovekde''"

definition ROOTPASSWORD :: bytes where
  "ROOTPASSWORD = ''ilovekde''"

text \<open>The directories of the build, and the entries of the configuration that the tests set.\<close>

record test_dirs =
  runtime_output_dir :: bytes
  cmake_home_dir :: bytes

record test_config =
  super_user_command :: bytes
  kdesu_stub_path :: bytes
  command_path :: bytes

definition editConfig :: "test_dirs \<Rightarrow> bytes \<Rightarrow> bytes \<Rightarrow> test_config" where
  "editConfig T cmd commandPath =
     \<lparr>super_user_command = cmd, kdesu_stub_path = runtime_output_dir T @ ''/kdesu_stub'', command_path = commandPath\<rparr>"

definition configured :: "test_config \<Rightarrow> su_env \<Rightarrow> su_env" where
  "configured C E = E\<lparr>su_stub_path := kdesu_stub_path C, su_command := command_path C\<rparr>"

text \<open>The two checks that every test makes; \<open>built_in\<close> is the choice made when the library was built.\<close>

definition verify_exec :: "test_config \<Rightarrow> bytes \<Rightarrow> su_env \<Rightarrow> bytes \<Rightarrow> bytes \<Rightarrow> int \<Rightarrow> pty \<Rightarrow> bool option" where
  "verify_exec C built_in E expected password expected_result p =
     (let suProcess = new_su ''root'' ''ls'';
          suapp = choose_superUserCommand built_in (super_user_command C)
      in if suapp \<noteq> expected then Some False
         else map_option (\<lambda>(result, _). result = expected_result)
           (su_exec (configured C E) suapp suProcess (Some password) 0 p))"

definition sudoGoodPassword :: "test_dirs \<Rightarrow> bytes \<Rightarrow> su_env \<Rightarrow> pty \<Rightarrow> bool option" where
  "sudoGoodPassword T b E p =
     verify_exec (editConfig T ''sudo'' (cmake_home_dir T @ ''/autotests/sudo'')) b E ''sudo'' MYPASSWORD 0 p"

definition sudoBadPassword :: "test_dirs \<Rightarrow> bytes \<Rightarrow> su_env \<Rightarrow> pty \<Rightarrow> bool option" where
  "sudoBadPassword T b E p =
     verify_exec (editConfig T ''sudo'' (cmake_home_dir T @ ''/autotests/sudo'')) b E ''sudo'' ''broken'' SuIncorrectPassword p"

definition doasBadPassword :: "test_dirs \<Rightarrow> bytes \<Rightarrow> su_env \<Rightarrow> pty \<Rightarrow> bool option" where
  "doasBadPassword T b E p =
     verify_exec (editConfig T ''doas'' (cmake_home_dir T @ ''/autotests/sudo'')) b E ''doas'' ''broken'' SuIncorrectPassword p"

definition doasGoodPassword :: "test_dirs \<Rightarrow> bytes \<Rightarrow> su_env \<Rightarrow> pty \<Rightarrow> bool option" where
  "doasGoodPassword T b E p =
     verify_exec (editConfig T ''doas'' (cmake_home_dir T @ ''/autotests/sudo'')) b E ''doas'' MYPASSWORD 0 p"

definition suGoodPassword :: "test_dirs \<Rightarrow> bytes \<Rightarrow> su_env \<Rightarrow> pty \<Rightarrow> bool option" where
  "suGoodPassword T b E p =
     verify_exec (editConfig T ''su'' (cmake_home_dir T @ ''/autotests/su'')) b E ''su'' ROOTPASSWORD 0 p"

definition suBadPassword :: "test_dirs \<Rightarrow> bytes \<Rightarrow> su_env \<Rightarrow> pty \<Rightarrow> bool option" where
  "suBadPassword T b E p =
     verify_exec (editConfig T ''su'' (cmake_home_dir T @ ''/autotests/su'')) b E ''su'' ''broken'' SuIncorrectPassword p"

section \<open>kdesudtest.cpp\<close>

text \<open>The test has a copy of \<^verbatim>\<open>Client::escape\<close>.\<close>

fun test_escape_loop :: "bytes \<Rightarrow> bytes \<Rightarrow> bytes" where
  "test_escape_loop copy [] = copy"
| "test_escape_loop copy (c # str) =
     (if code c < 32 then test_escape_loop (copy @ [BSLASH, CHR ''^'', byte_plus c 64]) str
      else
        let copy = (if c = BSLASH \<or> c = DQUOTE then copy @ [BSLASH] else copy)
        in test_escape_loop (copy @ [c]) str)"

definition test_escape :: "bytes \<Rightarrow> bytes" where
  "test_escape str = test_escape_loop [DQUOTE] str @ [DQUOTE]"

text \<open>The test for any command and user; \<^const>\<open>None\<close> is undefined behaviour of the lexer.\<close>

definition quoted_command :: "bytes \<Rightarrow> bytes \<Rightarrow> bool option" where
  "quoted_command c user = do {
     let cmd = ''EXEC '' @ test_escape c @ '' '' @ test_escape user @ [NL];
     (tok, l) \<leftarrow> lex (new_lexer cmd);
     if tok \<noteq> Tok_exec then Some False else do {
     (tok, l) \<leftarrow> lex l;
     if tok \<noteq> Tok_str then Some False else
     if lval l \<noteq> c then Some False else do {
     (tok, l) \<leftarrow> lex l;
     if tok \<noteq> Tok_str then Some False else
     if lval l \<noteq> user then Some False else do {
     (tok, l) \<leftarrow> lex l;
     if tok \<noteq> Tok_newline then Some False else Some True
   }}}}"

definition commandWithDoubleQuotes :: "bool option" where
  "commandWithDoubleQuotes = quoted_command (''bash -c '' @ [DQUOTE] @ ''ls -la'' @ [DQUOTE]) ''testuser''"

lemma test_escape_escape: "test_escape s = escape s"
proof -
  have "test_escape_loop copy s = escape_loop copy s" for copy
    by (induction s arbitrary: copy) (simp_all add: escape_byte_def)
  then show ?thesis by (simp add: test_escape_def escape_def)
qed

lemma quoted_command_iff: "quoted_command c u = Some (DEL \<notin> set c \<and> DEL \<notin> set u)"
proof -
  define r where "r = CHR '' '' # escape c @ CHR '' '' # escape u @ [NL]"
  define s where "s = ''EXEC '' @ escape c @ '' '' @ escape u @ [NL]"
  have s: "s = ''EXEC'' @ r" by (simp add: s_def r_def)
  have "ref_lex s = (keyword ''EXEC'', ''EXEC'', r)"
    unfolding s by (rule ref_lex_word) (auto simp: r_def word_char_def ctype)
  moreover have "keyword ''EXEC'' = Tok_exec" by code_simp
  ultimately have start: "lex (new_lexer s) = Some (Tok_exec, lexer_at s r ''EXEC'')"
    using lex_lexer_at [of s s Tok_exec "''EXEC''" r "[]"] by (auto simp: new_lexer_def lexer_at_def)
  have suf: "suffix r s" "suffix (CHR '' '' # escape u @ [NL]) s" "suffix [NL] s"
    by (simp_all add: s r_def suffix_def)
  have first: "p_str r = (if DEL \<in> set c then None else Some (c, CHR '' '' # escape u @ [NL]))"
    using p_str_escape [of c] p_str_escape_DEL [of c] by (simp add: r_def sendable_def)
  have second: "p_str (CHR '' '' # escape u @ [NL]) = (if DEL \<in> set u then None else Some (u, [NL]))"
    using p_str_escape [of u] p_str_escape_DEL [of u] by (simp add: sendable_def)
  have val: "lval (lexer_at s x v) = v" for x v by (simp add: lval_def lexer_at_def)
  have "quoted_command c u = do {
     (tok, l) \<leftarrow> lex (lexer_at s r ''EXEC'');
     if tok \<noteq> Tok_str then Some False else
     if lval l \<noteq> c then Some False else do {
     (tok, l) \<leftarrow> lex l;
     if tok \<noteq> Tok_str then Some False else
     if lval l \<noteq> u then Some False else do {
     (tok, l) \<leftarrow> lex l;
     if tok \<noteq> Tok_newline then Some False else Some True }}}"
    unfolding quoted_command_def Let_def test_escape_escape s_def [symmetric] start by simp
  then show ?thesis by (simp add: want suf first second val)
qed

section \<open>The dialogue after a wrong password\<close>

text \<open>
  Until the header of the stub comes, everything is skipped; without it the conversation ends
  as not authorised, be it at a colon or at the end of the output.
\<close>

lemma readLine_chunk:
  assumes "readLine b p = Some (l, q)" "reads p = map hears cs @ replicate n says_nothing"
  obtains cs' n' where "reads q = map hears cs' @ replicate n' says_nothing"
    "set (inputBuffer q @ concat cs') \<subseteq> set (inputBuffer p @ concat cs)"
    "set (bytes_of l) \<subseteq> set (inputBuffer p @ concat cs)"
proof -
  obtain d cs' n' where d: "readAll b p = Some (inputBuffer p @ d, p\<lparr>inputBuffer := [], reads := map hears cs' @ replicate n' says_nothing\<rparr>)"
    "concat cs = d @ concat cs'"
  proof (cases cs)
    case Nil
    then show thesis using assms that [of "[]" "[]"] readAll_calls(2) [of p _ b]
      by (cases n) (auto simp: readLine_def readAll_def)
  next
    case (Cons c cs')
    then show thesis using assms(2) that [of c cs' n] readAll_calls(1) [of p c _ b] by simp
  qed
  from assms(1) show thesis
  proof (cases rule: readLine_cases)
    case (silent q0)
    show thesis by (rule that [of cs' n']) (use d silent in auto)
  next
    case (partial buf q0)
    show thesis by (rule that [of cs' n']) (use d partial in auto)
  next
    case (line x r q0)
    then have "x @ NL # r = inputBuffer p @ d" "reads q = map hears cs' @ replicate n' says_nothing" using d(1) by auto
    moreover from this(1) have "set x \<union> set r \<subseteq> set (inputBuffer p @ d)" by (metis Un_least set_append set_subset_Cons subset_trans sup_ge1 sup_ge2)
    ultimately show thesis using d(2) line by (intro that [of cs' n']) auto
  qed
qed

lemma converseSU_refused:
  assumes "converseSU pw HandleStub p = Some (ret, p')" "reads p = map hears cs @ replicate n says_nothing"
    and "CHR ''_'' \<notin> set (inputBuffer p @ concat cs)"
  shows "ret = SU_notauthorized"
  using assms
proof (induction "length (reads p)" arbitrary: p cs n rule: less_induct)
  case less
  obtain l q where r: "readLine True p = Some (l, q)"
    using less.prems(1) by (auto simp: converseSU.simps [of pw HandleStub p] split: option.splits)
  obtain cs' n' where q: "reads q = map hears cs' @ replicate n' says_nothing"
    "set (inputBuffer q @ concat cs') \<subseteq> set (inputBuffer p @ concat cs)" "set (bytes_of l) \<subseteq> set (inputBuffer p @ concat cs)"
    by (rule readLine_chunk [OF r less.prems(2)])
  have "CHR ''_'' \<notin> set (bytes_of l)" using q(3) less.prems(3) by blast
  then have "bytes_of l \<noteq> ''kdesu_stub''" by auto
  moreover have "converseSU pw HandleStub q = Some (ret, p') \<Longrightarrow> ret = SU_notauthorized"
    using less.hyps [of q cs' n'] readLine_reads [OF r] q(1,2) less.prems(3) by blast
  ultimately show ?case
    using less.prems(1) r by (auto simp: converseSU.simps [of pw HandleStub p] Let_def split: if_splits)
qed

text \<open>The line that ends the prompt, then the rest of the answer, in any pieces.\<close>

lemma converseSU_wrong:
  assumes "converseSU pw CheckStar p = Some (ret, p')" "inputBuffer p = []"
    and "reads p = map hears cs @ replicate n says_nothing" "[] \<notin> set cs" "concat cs = NL # s" "CHR ''_'' \<notin> set s"
  shows "ret = SU_notauthorized"
proof -
  obtain c cs' where cs: "cs = c # cs'" using assms(5) by (cases cs) auto
  then obtain d where c: "c = NL # d" using assms(4,5) by (cases c) auto
  let ?q = "p\<lparr>inputBuffer := d, reads := map hears cs' @ replicate n says_nothing\<rparr>"
  have "readAll True p = Some (NL # d, p\<lparr>inputBuffer := [], reads := map hears cs' @ replicate n says_nothing\<rparr>)"
    using readAll_calls(1) [of p c _ True] assms(2,3) cs c by simp
  moreover have "indexOf_char (NL # d) NL = 0" using indexOf_char_first [of NL "[]" d] by simp
  ultimately have r: "readLine True p = Some (Some [], ?q)" by (simp add: readLine_def left_def remove_front_def)
  have "contains [] '':'' = False" "trimmed [] = []" by code_simp+
  then have "converseSU pw HandleStub ?q = Some (ret, p')"
    using assms(1) by (simp add: converseSU.simps [of pw CheckStar p] r)
  moreover have "CHR ''_'' \<notin> set (d @ concat cs')" using assms(5,6) cs c by auto
  ultimately show ?thesis using converseSU_refused [of pw ?q ret p' cs' n] by simp
qed

section \<open>A terminal on which one of the programs talks\<close>

text \<open>
  The prompt is read at once, and nothing follows until the password is written. After that the
  stub starts and asks for its parameters, or the answer to the wrong password comes in any pieces
  that are not empty, and then nothing more for as long as anybody asks.
\<close>

definition talks :: "bytes \<Rightarrow> fake_step \<Rightarrow> nat \<Rightarrow> pty \<Rightarrow> bool" where
  "talks prompt step k p \<longleftrightarrow> inputBuffer p = [] \<and> written p = [] \<and> extra_env p = [] \<and>
     (\<exists>ps. waitSlave_loop (slave_polls p) = Some (0, ps)) \<and>
     (\<exists>ms. more_output p = False # ms \<and> length prompt + length (after_password step) \<le> length ms) \<and>
     (if step = F_runs_stub then
        reads p = hears prompt # says [] # says ''kdesu_stub'' # says_nothing # map says (tl stub_params @ [''environment'', ''end''])
      else
        \<exists>cs n. reads p = hears prompt # map hears cs @ replicate n says_nothing \<and> [] \<notin> set cs \<and>
          concat cs = after_password step \<and> length prompt + length (after_password step) + k < n)"

text \<open>The child ends with status 0 after some turns of the loop that waits for it.\<close>

definition exits_well :: "su_env \<Rightarrow> bool" where
  "exits_well E \<longleftrightarrow> (\<exists>k. su_wait E = replicate k (Sel_none, Wait_other) @ [(Sel_none, Wait_state 0)])"

lemma wait_exits_well: "exits_well E \<Longrightarrow> waitForChild (su_wait E) p = Some (0, p)"
proof -
  have "wait_loop (replicate k (Sel_none, Wait_other) @ [(Sel_none, Wait_state 0)]) [] p = Some (0, p)" for k
    by (induction k) (simp_all add: checkPidExited_def WIFEXITED_def WEXITSTATUS_def P_Error_def P_Killed_def P_NotExited_def)
  then show "exits_well E \<Longrightarrow> waitForChild (su_wait E) p = Some (0, p)" by (auto simp: exits_well_def waitForChild_def)
qed

lemma exec_right:
  assumes "talks prompt F_runs_stub k p" "is_prompt prompt = Some True" "NL \<notin> set prompt" "su_command E \<noteq> []" "su_started E"
    and "exits_well E" "\<forall>v \<in> set (stub_values (su_stub_env E) s []). line_safe v"
  shows "\<exists>p'. su_exec E cmd s (Some pw) 0 p = Some (0, p')"
proof -
  from assms(1) obtain ps ms where p: "inputBuffer p = []" "written p = []" "extra_env p = []"
    "waitSlave_loop (slave_polls p) = Some (0, ps)" "more_output p = False # ms"
    "reads p = hears prompt # says [] # says ''kdesu_stub'' # says_nothing # map says (tl stub_params @ [''environment'', ''end''])"
    by (auto simp: talks_def)
  obtain q where "su_exec E cmd s (Some pw) NoCheck p = waitForChild (su_wait E) q"
    using su_hands_over [OF p(1,2,6,5,4) assms(2-5), of s cmd pw] p(3) assms(7) by auto
  then show ?thesis using wait_exits_well [OF assms(6)] by (simp add: NoCheck_def)
qed

lemma exec_wrong:
  assumes "talks prompt step (length (su_wait E) + 3) p" "step \<noteq> F_runs_stub" "CHR ''_'' \<notin> set (after_password step)"
    and "is_prompt prompt = Some True" "NL \<notin> set prompt" "su_command E \<noteq> []" "su_started E" "list_ex decisive (su_wait E)"
  shows "\<exists>p'. su_exec E cmd s (Some pw) 0 p = Some (SuIncorrectPassword, p')"
proof -
  from assms(1,2) obtain ps ms cs n where p: "inputBuffer p = []" "waitSlave_loop (slave_polls p) = Some (0, ps)"
    "more_output p = False # ms" "length prompt + length (after_password step) \<le> length ms"
    "reads p = hears prompt # map hears cs @ replicate n says_nothing" "[] \<notin> set cs" "concat cs = after_password step"
    "length prompt + length (after_password step) + (length (su_wait E) + 3) < n"
    by (auto simp: talks_def)
  have sums: "sum_list (map (\<lambda>c. length (bytes_of (read_loop (read_answers c)))) (map hears cs)) = length (concat cs)"
    by (simp add: length_concat comp_def hears_def)
  have quiet: "sum_list (map (\<lambda>c. length (bytes_of (read_loop (read_answers c)))) (replicate n says_nothing)) = 0"
    by (induction n) (simp_all add: says_nothing_def)
  have len: "pending p = length prompt + length (after_password step)"
    using sums quiet by (simp add: pending_def p(1,5,7)) (simp add: hears_def)
  have ans: "list_all answered (reads p)"
    by (auto simp: p(5) list_all_iff answered_def hears_def says_nothing_def)
  have "falls_silent (length (su_wait E) + 3) p" using len ans p(5,8) by (simp add: falls_silent_def)
  from su_exec_returns [OF this _ _ assms(8)] obtain ret p' where run: "su_exec E cmd s (Some pw) 0 p = Some (ret, p')"
    using len p(2-4) by fastforce
  let ?p = "enableLocalEcho False p"
  let ?q = "write_password pw (?p\<lparr>reads := map hears cs @ replicate n says_nothing, more_output := ms, slave_polls := ps\<rparr>)"
  have su: "converseSU (Some pw) WaitForPrompt ?p = converseSU (Some pw) CheckStar ?q"
    by (rule converseSU_prompt [OF _ _ _ _ assms(4,5)]) (use p in \<open>simp_all add: enableLocalEcho_def\<close>)
  obtain tail where tail: "after_password step = NL # tail" by (simp add: after_password_def)
  have refused: "r = SU_notauthorized" if "converseSU (Some pw) WaitForPrompt ?p = Some (r, p1)" for r p1
    using converseSU_wrong [of "Some pw" ?q r p1 cs n tail] that su p(1,6,7) assms(3) tail by (simp add: enableLocalEcho_def)
  have "ret = SuIncorrectPassword"
    using run refused assms(6,7) by (auto simp: su_exec_def Let_def NeedPassword_def SU_notauthorized_def SU_ok_def SU_error_def
        split: option.splits if_splits)
  then show ?thesis using run by blast
qed

lemma fake_prompts: "is_prompt sudo_prompt = Some True" "NL \<notin> set sudo_prompt" "is_prompt su_prompt = Some True" "NL \<notin> set su_prompt"
  by code_simp+

lemma fake_wrong:
  "pw \<noteq> fake_password \<Longrightarrow> sudo_process F_NEW pw \<noteq> F_runs_stub \<and> CHR ''_'' \<notin> set (after_password (sudo_process F_NEW pw))"
  "pw \<noteq> fake_password \<Longrightarrow> su_process pw \<noteq> F_runs_stub \<and> CHR ''_'' \<notin> set (after_password (su_process pw))"
  by (simp_all add: after_password_def su_process_def sudo_prompt_def)

text \<open>What \<^verbatim>\<open>exec\<close> says is what the program found.\<close>

lemma exec_verdict:
  assumes "(prompt, step) = (sudo_prompt, sudo_process F_NEW pw) \<or> (prompt, step) = (su_prompt, su_process pw)"
    and "talks prompt step (length (su_wait E) + 3) p" "su_command E \<noteq> []" "su_started E" "exits_well E"
    and "\<forall>v \<in> set (stub_values (su_stub_env E) s []). line_safe v"
  shows "\<exists>p'. su_exec E cmd s (Some pw) 0 p = Some (if pw = fake_password then 0 else SuIncorrectPassword, p')"
proof -
  have prompt: "is_prompt prompt = Some True" "NL \<notin> set prompt" using assms(1) fake_prompts by auto
  have wait: "list_ex decisive (su_wait E)"
    using assms(5) by (auto simp: exits_well_def checkPidExited_def WIFEXITED_def WEXITSTATUS_def P_NotExited_def)
  show ?thesis
  proof (cases "pw = fake_password")
    case True
    then have "step = F_runs_stub" using assms(1) by (auto simp: su_process_def)
    with exec_right [OF _ prompt assms(3-6)] assms(2) True show ?thesis by simp
  next
    case False
    then have "step \<noteq> F_runs_stub" "CHR ''_'' \<notin> set (after_password step)" using fake_wrong [of pw] assms(1) by auto
    from exec_wrong [OF assms(2) this prompt assms(3,4) wait] False show ?thesis by simp
  qed
qed

end
