(* ===== verification/Traces.thy ===== *)
theory Traces
  imports Main
begin

text \<open>
  Labelled runs, and two contracts about them. \<open>traces\<close> is the closure of a step relation whose
  steps carry one event, \<open>runs\<close> of one whose steps carry a list of events. The locale
  \<open>simulation\<close> is a forward simulation of big steps by small ones over an abstraction function;
  the locale \<open>history\<close> an invariant between what has happened so far and the state.
\<close>

section \<open>Runs with their events\<close>

inductive traces :: "('s \<Rightarrow> 'e \<Rightarrow> 's \<Rightarrow> bool) \<Rightarrow> 's \<Rightarrow> 'e list \<Rightarrow> 's \<Rightarrow> bool"
  for step where
  traces_nil: "traces step s [] s"
| traces_snoc: "traces step s es t \<Longrightarrow> step t e u \<Longrightarrow> traces step s (es @ [e]) u"

inductive runs :: "('s \<Rightarrow> 'e list \<Rightarrow> 's \<Rightarrow> bool) \<Rightarrow> 's \<Rightarrow> 'e list \<Rightarrow> 's \<Rightarrow> bool"
  for step where
  runs_nil: "runs step s [] s"
| runs_snoc: "runs step s es t \<Longrightarrow> step t fs u \<Longrightarrow> runs step s (es @ fs) u"

lemma traces_one: "step s e t \<Longrightarrow> traces step s [e] t"
  using traces_snoc [OF traces_nil] by fastforce

lemma runs_one: "step s es t \<Longrightarrow> runs step s es t"
  using runs_snoc [OF runs_nil] by fastforce

lemma traces_append: "traces step t fs u \<Longrightarrow> traces step s es t \<Longrightarrow> traces step s (es @ fs) u"
proof (induction rule: traces.induct)
  case (traces_snoc t fs u e v)
  from traces.traces_snoc [OF traces_snoc.IH [OF traces_snoc.prems] traces_snoc.hyps(2)] show ?case by simp
qed simp

lemmas traces_trans = traces_append [rotated]

lemma traces_cons: "step s e t \<Longrightarrow> traces step t es u \<Longrightarrow> traces step s (e # es) u"
  using traces_trans [OF traces_one] by fastforce

section \<open>Simulation\<close>

locale simulation =
  fixes big :: "'c \<Rightarrow> 'e list \<Rightarrow> 'c \<Rightarrow> bool"
    and small :: "'a \<Rightarrow> 'e \<Rightarrow> 'a \<Rightarrow> bool"
    and abstr :: "'c \<Rightarrow> 'a"
    and good :: "'c \<Rightarrow> bool"
  assumes big_good: "big c es d \<Longrightarrow> good c \<Longrightarrow> good d"
    and big_small: "big c es d \<Longrightarrow> good c \<Longrightarrow> traces small (abstr c) es (abstr d)"
begin

lemma simulated: "runs big c es d \<Longrightarrow> good c \<Longrightarrow> good d \<and> traces small (abstr c) es (abstr d)"
  by (induction rule: runs.induct) (auto intro: traces_nil big_good traces_trans big_small)

end

section \<open>Histories\<close>

locale history =
  fixes small :: "'a \<Rightarrow> 'e \<Rightarrow> 'a \<Rightarrow> bool"
    and begins :: "'a \<Rightarrow> bool"
    and holds :: "'e list \<Rightarrow> 'a \<Rightarrow> bool"
  assumes holds_begin: "begins a \<Longrightarrow> holds [] a"
    and holds_step: "holds es a \<Longrightarrow> small a e b \<Longrightarrow> holds (es @ [e]) b"
begin

lemma holds_after: "traces small a es b \<Longrightarrow> begins a \<Longrightarrow> holds es b"
  by (induction rule: traces.induct) (auto intro: holds_begin holds_step)

end

text \<open>An invariant of the abstract run is one of the concrete run.\<close>

locale simulated_history = simulation big small abstr good + history small begins holds
  for big :: "'c \<Rightarrow> 'e list \<Rightarrow> 'c \<Rightarrow> bool" and small and abstr :: "'c \<Rightarrow> 'a" and good and begins and holds
begin

lemma concrete_history: "runs big c es d \<Longrightarrow> good c \<Longrightarrow> begins (abstr c) \<Longrightarrow> holds es (abstr d)"
  using simulated holds_after by blast

end

end
