(* ===== verification/Service.thy ===== *)
theory Service
  imports Secrecy Traces
begin

text \<open>
  The client library and the daemon as one: each operation of \<^verbatim>\<open>KDESu::Client\<close> sends its message,
  \<^verbatim>\<open>ConnectionHandler::handle()\<close> reads and runs it, and the client makes its result of the answer.
  \<open>service\<close> is what the two promise an application that keeps variables in the daemon: a table from
  names to values with a group and a time to live. The code implements this table (interpretation
  \<open>vs\<close>), for any sequence of operations, with passwords, commands and the passing of time in between.
\<close>

section \<open>The table of variables\<close>

record var =
  var_value :: bytes
  var_group :: bytes
  var_until :: "32 word"

type_synonym vars = "bytes \<Rightarrow> var option"

datatype operation =
  Op_setPass bytes int
| Op_setHost bytes
| Op_setPriority int
| Op_setScheduler int
| Op_exec bytes bytes bytes "bytes list"
| Op_delCommand bytes bytes
| Op_setVar bytes bytes int bytes
| Op_getVar bytes
| Op_findGroup bytes
| Op_delVar bytes
| Op_delGroup bytes
| Op_delVars bytes
| Op_ping

datatype op_result = R_status int | R_value bytes | R_found bool

text \<open>An operation at a time with its result, or the daemon dropping what has expired.\<close>

datatype happening = Called "64 word" operation op_result | Expired "64 word"

definition drop_vars :: "(bytes \<Rightarrow> var \<Rightarrow> bool) \<Rightarrow> vars \<Rightarrow> vars" where
  "drop_vars P V = (\<lambda>n. case V n of None \<Rightarrow> None | Some v \<Rightarrow> if P n v then None else Some v)"

definition legible :: "bytes \<Rightarrow> bool" where
  "legible v \<longleftrightarrow> NUL \<notin> set v \<and> length v \<le> 1019"

definition has_group :: "vars \<Rightarrow> bytes \<Rightarrow> bool" where
  "has_group V g \<longleftrightarrow> g \<noteq> [] \<and> (\<exists>n v. V n = Some v \<and> var_group v = g)"

definition special_var :: "bytes \<Rightarrow> bytes \<Rightarrow> var \<Rightarrow> bool" where
  "special_var k n v \<longleftrightarrow> k \<noteq> [] \<and> prefix (var_group v) k \<and> sublist k (var_key n)"

definition status :: "bool \<Rightarrow> op_result" where
  "status ok = R_status (if ok then 0 else -1)"

fun setting :: "operation \<Rightarrow> bool" where
  "setting (Op_setPass _ _) = True"
| "setting (Op_setHost _) = True"
| "setting (Op_setPriority _) = True"
| "setting (Op_setScheduler _) = True"
| "setting Op_ping = True"
| "setting _ = False"

fun on_passwords :: "operation \<Rightarrow> bool" where
  "on_passwords (Op_exec _ _ _ _) = True"
| "on_passwords (Op_delCommand _ _) = True"
| "on_passwords _ = False"

text \<open>
  What an application can rely on. EXEC and DEL depend on passwords, which are not variables; DELS
  may also report success when it has removed passwords only.
\<close>

inductive service :: "vars \<Rightarrow> happening \<Rightarrow> vars \<Rightarrow> bool" where
  sets: "V' = V(n \<mapsto> \<lparr>var_value = v, var_group = g, var_until = absolute_timeout now (word_of_int t)\<rparr>) \<Longrightarrow>
    service V (Called now (Op_setVar n v t g) (status True)) V'"
| gets: "V n = Some v \<Longrightarrow> legible (var_value v) \<longrightarrow> r = var_value v \<Longrightarrow> service V (Called now (Op_getVar n) (R_value r)) V"
| gets_none: "V n = None \<Longrightarrow> service V (Called now (Op_getVar n) (R_value [])) V"
| finds: "service V (Called now (Op_findGroup g) (R_found (has_group V g))) V"
| deletes: "service V (Called now (Op_delVar n) (status (V n \<noteq> None))) (V(n := None))"
| deletes_group: "service V (Called now (Op_delGroup g) (status (has_group V g)))
    (drop_vars (\<lambda>_ v. g \<noteq> [] \<and> var_group v = g) V)"
| deletes_special: "(\<exists>n v. V n = Some v \<and> special_var k n v) \<longrightarrow> ok \<Longrightarrow>
    service V (Called now (Op_delVars k) (status ok)) (drop_vars (special_var k) V)"
| settings: "setting a \<Longrightarrow> service V (Called now a (status True)) V"
| others: "on_passwords a \<Longrightarrow> service V (Called now a (status ok)) V"
| expires: "service V (Expired now) (drop_vars (\<lambda>_ v. var_until v \<le> unsigned_time now) V)"

section \<open>The code\<close>

fun op_msg :: "operation \<Rightarrow> bytes" where
  "op_msg (Op_setPass p t) = setPass_msg (c_str p) t"
| "op_msg (Op_setHost h) = setHost_msg h"
| "op_msg (Op_setPriority n) = setPriority_msg n"
| "op_msg (Op_setScheduler n) = setScheduler_msg n"
| "op_msg (Op_exec c u opts env) = exec_msg c u opts env"
| "op_msg (Op_delCommand c u) = delCommand_msg c u"
| "op_msg (Op_setVar n v t g) = setVar_msg n v t g"
| "op_msg (Op_getVar n) = getVar_msg n"
| "op_msg (Op_findGroup g) = findGroup_msg g"
| "op_msg (Op_delVar n) = delVar_msg n"
| "op_msg (Op_delGroup g) = delGroup_msg g"
| "op_msg (Op_delVars k) = delVars_msg k"
| "op_msg Op_ping = ping_msg"

text \<open>The operation of the library, given what \<^verbatim>\<open>send\<close> and \<^verbatim>\<open>recv\<close> do.\<close>

fun op_call :: "client \<Rightarrow> (bytes \<Rightarrow> int) \<Rightarrow> (nat \<Rightarrow> recv_result) \<Rightarrow> operation \<Rightarrow> op_result" where
  "op_call d sends recv (Op_setPass p t) = R_status (setPass d sends recv p t)"
| "op_call d sends recv (Op_setHost h) = R_status (client_setHost d sends recv h)"
| "op_call d sends recv (Op_setPriority n) = R_status (client_setPriority d sends recv n)"
| "op_call d sends recv (Op_setScheduler n) = R_status (client_setScheduler d sends recv n)"
| "op_call d sends recv (Op_exec c u opts env) = R_status (client_exec d sends recv c u opts env)"
| "op_call d sends recv (Op_delCommand c u) = R_status (delCommand d sends recv c u)"
| "op_call d sends recv (Op_setVar n v t g) = R_status (setVar d sends recv n v t g)"
| "op_call d sends recv (Op_getVar n) = R_value (getVar d sends recv n)"
| "op_call d sends recv (Op_findGroup g) = R_found (findGroup d sends recv g)"
| "op_call d sends recv (Op_delVar n) = R_status (delVar d sends recv n)"
| "op_call d sends recv (Op_delGroup g) = R_status (delGroup d sends recv g)"
| "op_call d sends recv (Op_delVars k) = R_status (delVars d sends recv k)"
| "op_call d sends recv Op_ping = R_status (ping d sends recv)"

text \<open>
  One operation: the message is read by the daemon as it was sent, and what the daemon sends is what
  the client receives.
\<close>

definition exchange :: "client \<Rightarrow> cmd_env \<Rightarrow> operation \<Rightarrow> session \<Rightarrow> (op_result \<times> session) option" where
  "exchange d E a S =
     (case handle (recv_of (op_msg a)) (\<lambda>_. E) S of
        Some (Return ret, S') \<Rightarrow>
          if ret < 0 then None
          else Some (op_call d (\<lambda>cmd. int (length cmd)) (recv_of (concat (drop (length (sent S)) (sent S')))) a, S')
      | _ \<Rightarrow> None)"

text \<open>Arguments that can be sent, in a message that fits the buffer of the daemon.\<close>

fun args_ok :: "operation \<Rightarrow> bool" where
  "args_ok (Op_setPass p t) = (sendable (c_str p) \<and> sendable_num t)"
| "args_ok (Op_setHost h) = sendable h"
| "args_ok (Op_setPriority n) = sendable_num n"
| "args_ok (Op_setScheduler n) = sendable_num n"
| "args_ok (Op_exec c u opts env) = (sendable c \<and> sendable u \<and> sendable opts \<and> list_all sendable env)"
| "args_ok (Op_delCommand c u) = (sendable c \<and> sendable u)"
| "args_ok (Op_setVar n v t g) = (sendable n \<and> sendable v \<and> sendable g \<and> sendable_num t)"
| "args_ok (Op_getVar n) = sendable n"
| "args_ok (Op_findGroup g) = sendable g"
| "args_ok (Op_delVar n) = sendable n"
| "args_ok (Op_delGroup g) = sendable g"
| "args_ok (Op_delVars k) = sendable k"
| "args_ok Op_ping = True"

definition fits :: "operation \<Rightarrow> bool" where
  "fits a \<longleftrightarrow> args_ok a \<and> length (op_msg a) < BUF_SIZE - 1"

inductive client_moves :: "client \<Rightarrow> session \<Rightarrow> happening list \<Rightarrow> session \<Rightarrow> bool" for d where
  called: "peer_ok E S \<Longrightarrow> env_fork E \<noteq> 0 \<Longrightarrow> fits a \<Longrightarrow> exchange d E a S = Some (r, S') \<Longrightarrow>
    client_moves d S [Called (env_time1 E) a r] S'"
| expired: "client_moves d S [Expired now] (S\<lparr>store := snd (expire now (store S))\<rparr>)"

section \<open>The variables of a repository\<close>

definition as_var :: "data_entry \<Rightarrow> var" where
  "as_var e = \<lparr>var_value = bytes_of (entry_value e), var_group = entry_group e, var_until = entry_timeout e\<rparr>"

definition vars_of :: "repository \<Rightarrow> vars" where
  "vars_of r = (\<lambda>n. map_option as_var (repo_map r (var_key n)))"

definition named :: "bytes \<times> data_entry \<Rightarrow> bool" where
  "named e \<longleftrightarrow> entry_group (snd e) = [] \<or> fst e = var_key (drop 2 (take (length (fst e) - 2) (fst e)))"

abbreviation named_groups :: "repository \<Rightarrow> bool" where
  "named_groups r \<equiv> entries_ok named r"

definition served_well :: "client \<Rightarrow> session \<Rightarrow> bool" where
  "served_well d S \<longleftrightarrow> link_inv S \<and> m_Buf (conn S) = [] \<and> named_groups (store S) \<and> 0 \<le> sockfd d"

lemma var_key_eq [simp]: "var_key m = var_key n \<longleftrightarrow> m = n"
  by (simp add: var_key_def makeKey_def)

lemma named_iff: "named e \<longleftrightarrow> entry_group (snd e) = [] \<or> (\<exists>n. fst e = var_key n)"
  by (auto simp: named_def var_key_def makeKey_def setNum_small)

lemma var_key_nonempty [simp]: "var_key n \<noteq> []" "[] \<noteq> var_key n"
  by (simp_all add: var_key_def makeKey_def)

lemma var_key_other [simp]: "var_key n \<noteq> makeKey 0 a b c" "var_key n \<noteq> makeKey 2 a b c"
  "makeKey 0 a b c \<noteq> var_key n" "makeKey 2 a b c \<noteq> var_key n"
  using makeKey_1(1) [of n "[]" "[]" a b c] makeKey_1(2) [of n "[]" "[]" a b c] by (simp_all add: var_key_def eq_commute)

lemma repo_map_entry: "repo_inv r \<Longrightarrow> repo_map r k = Some e \<longleftrightarrow> (k, e) \<in> set (repo r)"
  using qmap_find_iff [OF repo_inv_map, of r k e] by (simp add: repo_map_def)

lemma vars_of_Some: "vars_of r n = Some v \<longleftrightarrow> (\<exists>e. repo_map r (var_key n) = Some e \<and> v = as_var e)"
  by (auto simp: vars_of_def)

lemma drop_vars_Some: "drop_vars P V n = Some v \<longleftrightarrow> V n = Some v \<and> \<not> P n v"
  by (auto simp: drop_vars_def split: option.split)

lemma vars_filter:
  assumes "repo_inv r" "repo_inv r'" "repo r' = filter (\<lambda>e. \<not> P e) (repo r)" "\<And>n e. P (var_key n, e) = Q n (as_var e)"
  shows "vars_of r' = drop_vars Q (vars_of r)"
proof (rule ext, rule option_eqI)
  fix n v
  have "repo_map r' (var_key n) = Some e \<longleftrightarrow> repo_map r (var_key n) = Some e \<and> \<not> Q n (as_var e)" for e
    using assms(3,4) by (simp add: repo_map_entry [OF assms(1)] repo_map_entry [OF assms(2)])
  then show "vars_of r' n = Some v \<longleftrightarrow> drop_vars Q (vars_of r) n = Some v"
    unfolding vars_of_Some drop_vars_Some by blast
qed

text \<open>What the operations of the repository do to the variables.\<close>

lemma vars_add: "repo_inv r \<Longrightarrow> vars_of (fst (add (var_key n) d now r)) =
    (vars_of r)(n \<mapsto> as_var (d\<lparr>entry_timeout := absolute_timeout now (entry_timeout d)\<rparr>))"
  by (auto simp: vars_of_def repo_add fun_eq_iff)

lemma vars_add_other: "repo_inv r \<Longrightarrow> (\<And>n. k \<noteq> var_key n) \<Longrightarrow> vars_of (fst (add k d now r)) = vars_of r"
  by (auto simp: vars_of_def repo_add fun_eq_iff)

lemma vars_remove: "repo_inv r \<Longrightarrow> vars_of (snd (remove (var_key n) r)) = (vars_of r)(n := None)"
  by (auto simp: vars_of_def repo_map_remove fun_eq_iff)

lemma vars_remove_other: "repo_inv r \<Longrightarrow> k \<noteq> [] \<Longrightarrow> (\<And>n. k \<noteq> var_key n) \<Longrightarrow> vars_of (snd (remove k r)) = vars_of r"
  by (auto simp: vars_of_def repo_map_remove fun_eq_iff)

lemma vars_store_pass: "repo_inv r \<Longrightarrow> vars_of (store_pass E h a c chk p t r) = vars_of r"
  by (simp add: store_pass_def Let_def vars_add_other add_inv)

lemma vars_expire: "repo_inv r \<Longrightarrow>
    vars_of (snd (expire now r)) = drop_vars (\<lambda>_ v. var_until v \<le> unsigned_time now) (vars_of r)"
  by (rule vars_filter [where P = "\<lambda>e. entry_timeout (snd e) \<le> unsigned_time now"])
    (simp_all add: expire_spec(1,3) as_var_def not_le)

lemma vars_removeGroup: "repo_inv r \<Longrightarrow>
    vars_of (snd (removeGroup g r)) = drop_vars (\<lambda>_ v. g \<noteq> [] \<and> var_group v = g) (vars_of r)"
  by (rule vars_filter [where P = "\<lambda>e. g \<noteq> [] \<and> entry_group (snd e) = g"])
    (auto simp: removeGroup_spec(1,3) as_var_def intro!: filter_cong)

lemma vars_removeSpecialKey: "repo_inv r \<Longrightarrow>
    vars_of (snd (removeSpecialKey k r)) = drop_vars (special_var k) (vars_of r)"
  by (rule vars_filter [where P = "\<lambda>e. k \<noteq> [] \<and> special_match k e"])
    (auto simp: removeSpecialKey_spec(1,3) as_var_def special_match_iff special_var_def intro!: filter_cong)

lemma has_group_vars:
  assumes "named_groups r"
  shows "hasGroup g r = (if has_group (vars_of r) g then 0 else -1)"
proof -
  have inv: "repo_inv r" using assms by (simp add: entries_ok_def)
  have "list_ex (in_group g) (repo r) \<longleftrightarrow> (\<exists>n v. vars_of r n = Some v \<and> var_group v = g)" if g: "g \<noteq> []"
  proof
    assume "list_ex (in_group g) (repo r)"
    then obtain k e where e: "(k, e) \<in> set (repo r)" "entry_group e = g" by (auto simp: list_ex_iff in_group_def)
    with assms g obtain n where "k = var_key n" by (auto simp: entries_ok_def list_all_iff named_iff)
    then have "vars_of r n = Some (as_var e)" using e(1) by (auto simp: vars_of_Some repo_map_entry [OF inv])
    moreover have "var_group (as_var e) = g" using e(2) by (simp add: as_var_def)
    ultimately show "\<exists>n v. vars_of r n = Some v \<and> var_group v = g" by blast
  next
    assume "\<exists>n v. vars_of r n = Some v \<and> var_group v = g"
    then obtain n e where "(var_key n, e) \<in> set (repo r)" "entry_group e = g"
      by (auto simp: vars_of_Some repo_map_entry [OF inv] as_var_def)
    then show "list_ex (in_group g) (repo r)" by (force simp: list_ex_iff in_group_def)
  qed
  then show ?thesis by (auto simp: hasGroup_def has_group_def)
qed

section \<open>One operation\<close>

text \<open>The request of an operation.\<close>

fun op_request :: "operation \<Rightarrow> request" where
  "op_request (Op_setPass p t) = C_pass (c_str p) t"
| "op_request (Op_setHost h) = C_host h"
| "op_request (Op_setPriority n) = C_prio n"
| "op_request (Op_setScheduler n) = C_sched n"
| "op_request (Op_exec c u opts env) = C_exec c u opts env"
| "op_request (Op_delCommand c u) = C_del c u"
| "op_request (Op_setVar n v t g) = C_set n v g t"
| "op_request (Op_getVar n) = C_get n"
| "op_request (Op_findGroup g) = C_chkg g"
| "op_request (Op_delVar n) = C_delv n"
| "op_request (Op_delGroup g) = C_delg g"
| "op_request (Op_delVars k) = C_dels k"
| "op_request Op_ping = C_ping"

lemma parse_op_msg: "args_ok a \<Longrightarrow> parse (op_msg a) = Some (op_request a)"
  by (cases a) (simp_all add: parse_messages)

lemma NL_escape [simp]: "NL \<notin> set (escape s)"
proof -
  have "NL \<notin> set (escape_byte c)" for c
  proof (cases "code c < 32")
    case True
    then have "code (byte_plus c 64) = code c + 64" by (simp add: byte_plus_def)
    then have "byte_plus c 64 \<noteq> NL" by auto
    then show ?thesis using True by (simp add: escape_byte_def)
  qed (auto simp: escape_byte_def)
  then show ?thesis by (simp add: escape_concat)
qed

lemma NL_setNum [simp]: "NL \<notin> set (setNum n)"
proof -
  have "NL \<notin> set (dec_nat k)" for k using dec_nat_digits [of k] by (auto simp: ctype)
  then show ?thesis by (simp add: setNum_def)
qed

lemma NL_env_args [simp]: "NL \<notin> set (env_args vs)"
  by (induction vs) auto

lemma op_msg_line: "\<exists>l. op_msg a = l @ [NL] \<and> NL \<notin> set l"
proof -
  have "last (op_msg a) = NL \<and> op_msg a \<noteq> [] \<and> NL \<notin> set (butlast (op_msg a))"
    by (cases a) (simp_all add: setPass_msg_def setHost_msg_def setPriority_msg_def setScheduler_msg_def exec_msg_def
        delCommand_msg_def setVar_msg_def getVar_msg_def findGroup_msg_def delVar_msg_def delGroup_msg_def
        delVars_msg_def ping_msg_def butlast_append)
  then show ?thesis using append_butlast_last_id [of "op_msg a"] by metis
qed

lemma handle_op:
  assumes "served_well d S" "peer_ok E S" "fits a" "run_command E (op_request a) S = Some (Return 0, S')"
  shows "handle (recv_of (op_msg a)) (\<lambda>_. E) S = Some (Return 0, S')"
proof -
  obtain l where l: "op_msg a = l @ [NL]" "NL \<notin> set l" using op_msg_line by blast
  have buf: "m_Buf (conn S) = []" using assms(1) by (simp add: served_well_def)
  then have same: "with_buf [] S = S" using with_buf_simps(11) [of S] by simp
  have "doCommand E (op_msg a) S = Some (Return 0, S')"
    using doCommand_msg [OF assms(2) parse_op_msg] assms(3,4) by (simp add: fits_def)
  moreover have "m_Buf (conn S') = []" using run_command_frame [OF assms(4)] buf by (simp add: same_link_def)
  ultimately have "lines_loop (\<lambda>_. E) (with_buf (op_msg a) S) = Some (Return 0, S')"
    using lines_loop_line [of "with_buf (op_msg a) S" l "[]"] l same by (simp add: lines_loop_idle)
  then show ?thesis using handle_lines [of "op_msg a" S] assms(3) buf l by (simp add: fits_def)
qed

lemma served_well_op:
  assumes "served_well d S" "peer_ok E S" "fits a" "run_command E (op_request a) S = Some (Return 0, S')"
  shows "served_well d S'"
proof -
  have "link_inv S" using assms(1) by (simp add: served_well_def)
  then obtain out S2 where "handle (recv_of (op_msg a)) (\<lambda>_. E) S = Some (out, S2)" "out = Return 0 \<Longrightarrow> link_inv S2"
    using handle_good [OF _ recv_ok_of] by metis
  then have "link_inv S'" using handle_op [OF assms] by simp
  moreover have "m_Buf (conn S') = []"
    using run_command_frame [OF assms(4)] assms(1) by (simp add: same_link_def served_well_def)
  moreover have "named_groups (store S')"
    by (rule entries_run [OF assms(4)]) (use assms(1) in \<open>auto simp: served_well_def named_iff\<close>)
  ultimately show ?thesis using assms(1) by (simp add: served_well_def)
qed

lemma exchange_answer:
  assumes "served_well d S" "peer_ok E S" "fits a" "run_command E (op_request a) S = Some (Return 0, S')"
    and "sent S' = sent S @ [m]"
  shows "exchange d E a S = Some (op_call d (\<lambda>cmd. int (length cmd)) (recv_of m) a, S')"
  using handle_op [OF assms(1-4)] assms(5) by (simp add: exchange_def)

lemma op_call_answer:
  assumes "0 \<le> sockfd d" "m = reply (if ok then Res_OK else Res_NO) []"
  shows "(\<forall>n. a \<noteq> Op_getVar n) \<Longrightarrow> (\<forall>g. a \<noteq> Op_findGroup g) \<Longrightarrow>
      op_call d (\<lambda>cmd. int (length cmd)) (recv_of m) a = status ok"
    and "op_call d (\<lambda>cmd. int (length cmd)) (recv_of m) (Op_findGroup g) = R_found ok"
proof -
  have "recv_of m 1023 = Received m" by (rule recv_of_all) (simp_all add: assms(2) reply_def)
  then have cmd: "fst (command d (\<lambda>cmd. int (length cmd)) (recv_of m) msg None) = (if ok then 0 else -1)" for msg
    using assms by (simp add: command_def command_reply_def reply_def c_str_id left_def Let_def)
  show "(\<forall>n. a \<noteq> Op_getVar n) \<Longrightarrow> (\<forall>g. a \<noteq> Op_findGroup g) \<Longrightarrow>
      op_call d (\<lambda>cmd. int (length cmd)) (recv_of m) a = status ok"
    by (cases a) (simp_all add: cmd status_def setPass_def client_setHost_def client_setPriority_def client_setScheduler_def
        client_exec_def delCommand_def setVar_def delVar_def delGroup_def delVars_def ping_def)
  show "op_call d (\<lambda>cmd. int (length cmd)) (recv_of m) (Op_findGroup g) = R_found ok"
    by (simp add: findGroup_def cmd)
qed

lemma op_call_value:
  assumes "0 \<le> sockfd d"
  shows "legible v \<Longrightarrow> op_call d (\<lambda>cmd. int (length cmd)) (recv_of (if v \<noteq> [] then reply Res_OK v else reply Res_NO [])) (Op_getVar n)
    = R_value v"
    and "op_call d (\<lambda>cmd. int (length cmd)) (recv_of m) (Op_getVar n) = R_value (getVar d (\<lambda>cmd. int (length cmd)) (recv_of m) n)"
proof -
  assume v: "legible v"
  have "recv_of (if v \<noteq> [] then reply Res_OK v else reply Res_NO []) 1023 = Received (if v \<noteq> [] then reply Res_OK v else reply Res_NO [])"
    by (rule recv_of_all) (use v in \<open>simp_all add: reply_def legible_def\<close>)
  then show "op_call d (\<lambda>cmd. int (length cmd)) (recv_of (if v \<noteq> [] then reply Res_OK v else reply Res_NO [])) (Op_getVar n)
    = R_value v"
    using assms v command_reply_OK [of v "[]"] command_reply_bare(2)
    by (auto simp: getVar_def command_def legible_def)
qed simp


text \<open>The effect of an operation: the answer of the daemon and what it makes of the variables.\<close>

lemma run_status:
  assumes "served_well d S" "env_fork E \<noteq> 0" "\<forall>n. a \<noteq> Op_getVar n"
  obtains ok S1 where "run_command E (op_request a) S = Some (answer ok S1)" "sent S1 = sent S"
    "\<forall>g. a \<noteq> Op_findGroup g \<Longrightarrow> service (vars_of (store S)) (Called (env_time1 E) a (status ok)) (vars_of (store S1))"
    "\<And>g. a = Op_findGroup g \<Longrightarrow> S1 = S \<and> (ok \<longleftrightarrow> has_group (vars_of (store S)) g)"
proof -
  have inv: "session_inv S" "repo_inv (store S)" "named_groups (store S)"
    using assms(1) by (simp_all add: served_well_def link_inv_def session_inv_def)
  note grp = has_group_vars [OF inv(3)]
  show ?thesis
  proof (cases a)
    case (Op_setPass p t)
    then show ?thesis by (intro that [of True "set_conn (\<lambda>c. c\<lparr>m_Pass := Some (c_str p), m_Timeout := Some t\<rparr>) S"])
      (auto intro: settings)
  next
    case (Op_setHost h)
    then show ?thesis by (intro that [of True "set_conn (\<lambda>c. c\<lparr>m_Host := h\<rparr>) S"]) (auto intro: settings)
  next
    case (Op_setPriority n)
    then show ?thesis by (intro that [of True "set_conn (\<lambda>c. c\<lparr>m_Priority := n\<rparr>) S"]) (auto intro: settings)
  next
    case (Op_setScheduler n)
    then show ?thesis by (intro that [of True "set_conn (\<lambda>c. c\<lparr>m_Scheduler := n\<rparr>) S"]) (auto intro: settings)
  next
    case (Op_exec c u opts env)
    have job: "\<exists>ok S2. forked E job T = answer ok S2 \<and> store S2 = store T \<and> sent S2 = sent T" for job T
      using assms(2) by (cases "env_fork E < 0") (force simp: forked_def)+
    obtain ok S1 where run: "run_exec E c u opts env S = Some (answer ok S1)" "vars_of (store S1) = vars_of (store S)" "sent S1 = sent S"
    proof (cases "isNull (stored_pass (store S) (m_Host (conn S)) (auth_user (conn S) u) c (env_check_of env))")
      case True
      show ?thesis
      proof (cases "isNull (m_Pass (conn S))")
        case True
        with \<open>isNull (stored_pass _ _ _ _ _)\<close> show ?thesis using that [of False S] by (simp add: run_exec_def Let_def)
      next
        case False
        then obtain t where t: "m_Timeout (conn S) = Some t"
          using inv(1) by (cases "m_Timeout (conn S)") (auto simp: session_inv_def)
        let ?T = "S\<lparr>store := store_pass E (m_Host (conn S)) (auth_user (conn S) u) c (env_check_of env) (m_Pass (conn S)) t (store S)\<rparr>"
        obtain ok S2 where "forked E (exec_job (conn S) c u opts env (m_Pass (conn S))) ?T = answer ok S2"
          "store S2 = store ?T" "sent S2 = sent ?T" using job by blast
        with \<open>isNull (stored_pass _ _ _ _ _)\<close> False t show ?thesis
          using that [of ok S2] by (simp add: run_exec_def Let_def vars_store_pass [OF inv(2)])
      qed
    next
      case False
      obtain ok S2 where "forked E (exec_job (conn S) c u opts env
          (stored_pass (store S) (m_Host (conn S)) (auth_user (conn S) u) c (env_check_of env))) S = answer ok S2"
        "store S2 = store S" "sent S2 = sent S" using job by blast
      with False show ?thesis using that [of ok S2] by (simp add: run_exec_def Let_def)
    qed
    then show ?thesis using Op_exec by (intro that [of ok S1]) (auto intro: others)
  next
    case (Op_delCommand c u)
    then show ?thesis
      by (intro that [of "\<not> fst (remove (makeKey 0 (m_Host (conn S)) u c) (store S)) < 0"
            "S\<lparr>store := snd (remove (makeKey 0 (m_Host (conn S)) u c) (store S))\<rparr>"])
        (auto simp: case_prod_beta Let_def vars_remove_other [OF inv(2)] intro: others)
  next
    case (Op_setVar n v t g)
    let ?d = "\<lparr>entry_value = Some v, entry_group = g, entry_timeout = word_of_int t\<rparr>"
    show ?thesis using Op_setVar
      by (intro that [of True "S\<lparr>store := fst (add (var_key n) ?d (env_time1 E) (store S))\<rparr>"])
        (auto simp: vars_add [OF inv(2)] as_var_def intro: sets)
  next
    case (Op_findGroup g)
    then show ?thesis by (intro that [of "has_group (vars_of (store S)) g" S]) (simp_all add: grp)
  next
    case (Op_delVar n)
    have "fst (remove (var_key n) (store S)) < 0 \<longleftrightarrow> vars_of (store S) n = None"
      by (simp add: remove_result vars_of_def)
    then show ?thesis using Op_delVar
      by (intro that [of "vars_of (store S) n \<noteq> None" "S\<lparr>store := snd (remove (var_key n) (store S))\<rparr>"])
        (auto simp: case_prod_beta Let_def vars_remove [OF inv(2)] simp del: not_None_eq intro: deletes)
  next
    case (Op_delGroup g)
    have "fst (removeGroup g (store S)) < 0 \<longleftrightarrow> \<not> has_group (vars_of (store S)) g"
      by (simp add: removeGroup_spec(2) [OF inv(2)] grp)
    then show ?thesis using Op_delGroup
      by (intro that [of "has_group (vars_of (store S)) g" "S\<lparr>store := snd (removeGroup g (store S))\<rparr>"])
        (auto simp: case_prod_beta Let_def vars_removeGroup [OF inv(2)] intro: deletes_group)
  next
    case (Op_delVars k)
    let ?ok = "\<not> fst (removeSpecialKey k (store S)) < 0"
    have "?ok" if hit: "vars_of (store S) n = Some v" "special_var k n v" for n v
    proof -
      obtain e where e: "(var_key n, e) \<in> set (repo (store S))" "v = as_var e"
        using hit(1) by (auto simp: vars_of_Some repo_map_entry [OF inv(2)])
      then have "k \<noteq> [] \<and> special_match k (var_key n, e)"
        using hit(2) by (simp add: special_match_iff special_var_def as_var_def)
      then show ?thesis using e(1) by (auto simp: removeSpecialKey_spec(2) [OF inv(2)] list_ex_iff)
    qed
    then show ?thesis using Op_delVars
      by (intro that [of ?ok "S\<lparr>store := snd (removeSpecialKey k (store S))\<rparr>"])
        (auto simp: case_prod_beta Let_def vars_removeSpecialKey [OF inv(2)] intro!: deletes_special)
  next
    case Op_ping
    then show ?thesis by (intro that [of True S]) (auto intro: settings)
  qed (use assms(3) in simp)
qed

lemma op_step:
  assumes "served_well d S" "peer_ok E S" "env_fork E \<noteq> 0" "fits a"
  shows "\<exists>r S'. exchange d E a S = Some (r, S') \<and> served_well d S' \<and> m_peer (conn S') = m_peer (conn S) \<and>
    service (vars_of (store S)) (Called (env_time1 E) a r) (vars_of (store S'))"
proof -
  have d: "0 \<le> sockfd d" using assms(1) by (simp add: served_well_def)
  have ends: ?thesis if "run_command E (op_request a) S = Some (Return 0, S')" "sent S' = sent S @ [m]"
    "service (vars_of (store S)) (Called (env_time1 E) a (op_call d (\<lambda>cmd. int (length cmd)) (recv_of m) a)) (vars_of (store S'))" for S' m
    using exchange_answer [OF assms(1,2,4) that(1,2)] served_well_op [OF assms(1,2,4) that(1)] that(3)
      run_command_frame [OF that(1)] by (auto simp: same_link_def)
  show ?thesis
  proof (cases "\<exists>n. a = Op_getVar n")
    case True
    then obtain n where a: "a = Op_getVar n" ..
    let ?v = "bytes_of (find (var_key n) (store S))"
    let ?m = "if ?v \<noteq> [] then reply Res_OK ?v else reply Res_NO []"
    have run: "run_command E (op_request a) S = Some (Return 0, S\<lparr>sent := sent S @ [?m]\<rparr>)"
      by (simp add: a answer_value_def respond_def send_msg_def)
    have found: "?v = (case vars_of (store S) n of None \<Rightarrow> [] | Some v \<Rightarrow> var_value v)"
      by (auto simp: find_repo_map vars_of_def as_var_def split: option.split)
    have "service (vars_of (store S)) (Called (env_time1 E) a (op_call d (\<lambda>cmd. int (length cmd)) (recv_of ?m) a)) (vars_of (store S))"
    proof (cases "vars_of (store S) n")
      case None
      then have "op_call d (\<lambda>cmd. int (length cmd)) (recv_of ?m) a = R_value []"
        using op_call_value(1) [OF d, of ?v n] found by (simp add: a legible_def)
      then show ?thesis using None by (simp add: a gets_none)
    next
      case (Some v)
      then have "legible (var_value v) \<longrightarrow> op_call d (\<lambda>cmd. int (length cmd)) (recv_of ?m) a = R_value (var_value v)"
        using op_call_value(1) [OF d, of ?v n] found by (simp add: a)
      then show ?thesis using gets [of _ n v] Some by (auto simp: a)
    qed
    then show ?thesis using ends [OF run] by simp
  next
    case False
    then obtain ok S1 where run: "run_command E (op_request a) S = Some (answer ok S1)" "sent S1 = sent S"
      "\<forall>g. a \<noteq> Op_findGroup g \<Longrightarrow> service (vars_of (store S)) (Called (env_time1 E) a (status ok)) (vars_of (store S1))"
      "\<And>g. a = Op_findGroup g \<Longrightarrow> S1 = S \<and> (ok \<longleftrightarrow> has_group (vars_of (store S)) g)"
      using run_status [OF assms(1,3), of a] by metis
    let ?m = "reply (if ok then Res_OK else Res_NO) []" and ?S2 = "respond (if ok then Res_OK else Res_NO) [] S1"
    have "run_command E (op_request a) S = Some (Return 0, ?S2)" "sent ?S2 = sent S @ [?m]" "store ?S2 = store S1"
      using run(1,2) by (simp_all add: answers)
    moreover have "service (vars_of (store S)) (Called (env_time1 E) a (op_call d (\<lambda>cmd. int (length cmd)) (recv_of ?m) a)) (vars_of (store S1))"
    proof (cases "\<exists>g. a = Op_findGroup g")
      case True
      then obtain g where "a = Op_findGroup g" ..
      then show ?thesis using run(4) op_call_answer(2) [OF d refl, of ok g] finds [of "vars_of (store S)" "env_time1 E" g] by simp
    next
      case other: False
      then show ?thesis using run(3) op_call_answer(1) [OF d refl, of a ok] False by simp
    qed
    ultimately show ?thesis using ends by simp
  qed
qed

section \<open>Any sequence of operations\<close>

lemma move_step:
  assumes "client_moves d S es S'" "served_well d S"
  shows "served_well d S' \<and> m_peer (conn S') = m_peer (conn S) \<and> traces service (vars_of (store S)) es (vars_of (store S'))"
  using assms(1)
proof cases
  case (called E a r)
  then show ?thesis using op_step [OF assms(2), of E a] by (auto intro: traces_one)
next
  case (expired now)
  let ?V = "vars_of (store S)"
  have inv: "repo_inv (store S)" using assms(2) by (simp add: served_well_def link_inv_def session_inv_def)
  have "service ?V (Expired now) (vars_of (snd (expire now (store S))))"
    using expires [of ?V now] by (simp add: vars_expire [OF inv])
  moreover have "link_inv S'"
    using expired assms(2) by (auto simp: served_well_def link_inv_def session_inv_def expire_spec(3))
  ultimately show ?thesis using expired assms(2) by (simp add: traces_one served_well_def entries_expire)
qed

interpretation vs: simulation "client_moves d" service "\<lambda>S. vars_of (store S)" "served_well d" for d
  by unfold_locales (use move_step in blast)+

lemma runs_peer: "runs (client_moves d) S es S' \<Longrightarrow> served_well d S \<Longrightarrow> m_peer (conn S') = m_peer (conn S)"
proof (induction rule: runs.induct)
  case (runs_snoc S es T fs U)
  then show ?case using vs.simulated move_step [of d T fs U] by auto
qed simp

lemma op_after_runs:
  assumes "served_well d S" "runs (client_moves d) S es S'" "peer_ok E S" "env_fork E \<noteq> 0" "fits a"
  shows "\<exists>r T. exchange d E a S' = Some (r, T) \<and> service (vars_of (store S')) (Called (env_time1 E) a r) (vars_of (store T))"
  using op_step [of d S' E a] vs.simulated [OF assms(2,1)] runs_peer [OF assms(2,1)] assms(3-5) by (auto simp: peer_ok_def)

text \<open>A variable stays what it is while nothing is said of it and its time has not come.\<close>

fun spares :: "bytes \<Rightarrow> var \<Rightarrow> happening \<Rightarrow> bool" where
  "spares n v (Called _ (Op_setVar n' _ _ _) _) \<longleftrightarrow> n' \<noteq> n"
| "spares n v (Called _ (Op_delVar n') _) \<longleftrightarrow> n' \<noteq> n"
| "spares n v (Called _ (Op_delGroup g) _) \<longleftrightarrow> g = [] \<or> g \<noteq> var_group v"
| "spares n v (Called _ (Op_delVars k) _) \<longleftrightarrow> \<not> special_var k n v"
| "spares n v (Called _ _ _) \<longleftrightarrow> True"
| "spares n v (Expired now) \<longleftrightarrow> unsigned_time now < var_until v"

lemma service_spares: "service V e V' \<Longrightarrow> V n = Some v \<Longrightarrow> spares n v e \<Longrightarrow> V' n = Some v"
  by (cases rule: service.cases) (auto simp: drop_vars_Some)

lemma traces_spares: "traces service V es V' \<Longrightarrow> V n = Some v \<Longrightarrow> list_all (spares n v) es \<Longrightarrow> V' n = Some v"
  by (induction rule: traces.induct) (auto intro: service_spares)

inductive_cases service_setE: "service V (Called now (Op_setVar n v t g) r) V'"
inductive_cases service_getE: "service V (Called now (Op_getVar n) r) V'"


lemma length_escape: "length s + 2 \<le> length (escape s)"
proof -
  have one: "1 \<le> length (escape_byte c)" for c by (simp add: escape_byte_def)
  have "length s \<le> length (concat (map escape_byte s))"
  proof (induction s)
    case (Cons c s)
    then show ?case using one [of c] by simp
  qed simp
  then show ?thesis by (simp add: escape_concat)
qed

lemma fits_legible: "fits (Op_setVar n v t g) \<Longrightarrow> NUL \<notin> set v \<Longrightarrow> legible v"
  using length_escape [of v] by (simp add: fits_def setVar_msg_def BUF_SIZE_def legible_def)

lemma set_then_get:
  assumes "served_well d S0" "peer_ok E S0" "env_fork E \<noteq> 0" "fits (Op_setVar n v t g)" "NUL \<notin> set v"
    and "exchange d E (Op_setVar n v t g) S0 = Some (r, S1)" "runs (client_moves d) S1 es S2"
    and "list_all (spares n \<lparr>var_value = v, var_group = g, var_until = absolute_timeout (env_time1 E) (word_of_int t)\<rparr>) es"
    and "peer_ok F S0" "env_fork F \<noteq> 0" "fits (Op_getVar n)"
  shows "r = R_status 0 \<and> (\<exists>S3. exchange d F (Op_getVar n) S2 = Some (R_value v, S3))"
proof -
  let ?v = "\<lparr>var_value = v, var_group = g, var_until = absolute_timeout (env_time1 E) (word_of_int t)\<rparr>"
  have S1: "served_well d S1" "m_peer (conn S1) = m_peer (conn S0)" "r = R_status 0" "vars_of (store S1) n = Some ?v"
    using op_step [OF assms(1-4)] assms(6) by (auto simp: status_def elim: service_setE)
  then have "vars_of (store S2) n = Some ?v"
    using traces_spares [of "vars_of (store S1)" es "vars_of (store S2)"] vs.simulated [OF assms(7)] assms(8) by blast
  moreover have "peer_ok F S1" using S1(2) assms(9) by (simp add: peer_ok_def)
  then obtain x T where "exchange d F (Op_getVar n) S2 = Some (x, T)"
    "service (vars_of (store S2)) (Called (env_time1 F) (Op_getVar n) x) (vars_of (store T))"
    using op_after_runs [OF S1(1) assms(7) _ assms(10,11)] by blast
  ultimately show ?thesis using S1(3) fits_legible [OF assms(4,5)] by (auto elim!: service_getE)
qed


text \<open>The first steps of it without the buffer, for longer values.\<close>

lemma setVar_getVar:
  assumes "session_inv S" and "peer_ok E1 S" and "peer_ok E2 S"
    and "sendable k" and "sendable v" and "sendable g" and "sendable_num t"
    and "v \<noteq> []" and "NUL \<notin> set v" and "length v \<le> 1019" and "0 \<le> sockfd d"
  shows "case doCommand E1 (setVar_msg k v t g) S of
      Some (Return r1, S1) \<Rightarrow> r1 = 0 \<and>
        (case doCommand E2 (getVar_msg k) S1 of
           Some (Return r2, S2) \<Rightarrow> r2 = 0 \<and> store S2 = store S1 \<and>
             getVar d (\<lambda>cmd. int (length cmd)) (recv_of (last (sent S2))) k = v
         | _ \<Rightarrow> False)
    | _ \<Rightarrow> False"
proof -
  let ?d = "\<lparr>entry_value = Some v, entry_group = g, entry_timeout = word_of_int t\<rparr>"
  let ?S1 = "snd (answer True (S\<lparr>store := fst (add (var_key k) ?d (env_time1 E1) (store S))\<rparr>))"
  have set: "doCommand E1 (setVar_msg k v t g) S = Some (Return 0, ?S1)"
    using doCommand_msg [OF assms(2) parse_setVar [OF assms(4-7)]] by (simp add: answer_def)
  have "peer_ok E2 ?S1" using assms(3) by (simp add: peer_ok_def answers)
  moreover have "find (var_key k) (store ?S1) = Some v"
    using assms(1) by (simp add: answers find_add session_inv_def)
  ultimately have get: "doCommand E2 (getVar_msg k) ?S1 = Some (Return 0, respond Res_OK v ?S1)"
    using doCommand_msg [OF _ parse_getVar [OF assms(4)], of E2 ?S1] assms(8) by (simp add: answer_value_def)
  have "recv_of (reply Res_OK v) 1023 = Received (reply Res_OK v)"
    by (rule recv_of_all) (use assms(10) in \<open>simp_all add: reply_def\<close>)
  then have "getVar d (\<lambda>cmd. int (length cmd)) (recv_of (last (sent (respond Res_OK v ?S1)))) k = v"
    using assms(8,9,11) command_reply_OK [of v "[]"]
    by (simp add: getVar_def command_def respond_def send_msg_def)
  then show ?thesis using set get by (simp add: respond_def send_msg_def)
qed

end
