(* ===== verification/Samples.thy ===== *)
theory Samples
  imports Clock Handover Cookie Startup Tests Service
begin

text \<open>
  Concrete values on which the witnesses of the properties evaluate the model: a user's session
  with and without a password, a repository with two variables, a daemon that waits for one
  child, rounds in which clients connect and talk, a terminal whose child says what a script tells it, and a small system for the stub.
\<close>

definition sample_peer :: socket_security where
  "sample_peer = \<lparr>sec_pid = 7, sec_gid = 100, sec_uid = 1000\<rparr>"

definition sample_session :: session where
  "sample_session = \<lparr>conn = new_connection 7 sample_peer, store = new_repository, sent = []\<rparr>"

definition sample_login :: session where
  "sample_login = sample_session\<lparr>conn := (new_connection 7 sample_peer)\<lparr>m_Pass := Some ''secret'', m_Timeout := Some 60\<rparr>\<rparr>"

definition sample_env :: "int \<Rightarrow> cmd_env" where
  "sample_env pid = \<lparr>env_getuid = 1000, env_time1 = 50, env_time2 = 50, env_fork = pid\<rparr>"

definition sample_repo :: repository where
  "sample_repo = fst (add ''1*b-1**'' \<lparr>entry_value = Some ''v'', entry_group = ''grp'', entry_timeout = 0\<rparr> 50
     (fst (add ''1*a-1**'' \<lparr>entry_value = Some ''w'', entry_group = ''grp'', entry_timeout = 60\<rparr> 50 new_repository)))"

definition sample_round :: "nat set \<Rightarrow> round_env" where
  "sample_round ready = \<lparr>r_select = Ready ready, r_now = 50, r_wait = [(77, 768)], r_accept = (\<lambda>A. - 1),
     r_peer = sample_peer, r_recv = (\<lambda>i. recv_of (''PING'' @ [NL])), r_cmd = (\<lambda>i j. sample_env 77)\<rparr>"

definition sample_daemon :: daemon where
  "sample_daemon = \<lparr>handlers = replicate 6 None @ [Some ((new_connection 6 sample_peer)\<lparr>m_pid := 77, m_needExitCode := True\<rparr>)],
     d_repo = new_repository, active_fds = {3, 4, 6}, maxfd = 6, d_sockfd = 3, pipe_fd = 4, x11_fd = None,
     sent_to = [], closed_fds = []\<rparr>"

definition sample_pty :: "read_call list \<Rightarrow> pty" where
  "sample_pty script = \<lparr>inputBuffer = [], wantLocalEcho = True, has_pty = True, m_terminal = True, m_erase = False,
     m_exitString = ''bye'', child_pid = 99, extra_env = [''A=1''], reads = script, slave_polls = [((''sudo'', True), Some False)],
     more_output = [False], written = [], shown = [], signals = []\<rparr>"

definition sample_stub_env :: stub_env where
  "sample_stub_env = \<lparr>e_display = '':0'', e_displayAuth = ''cookie'', e_path = ''/bin'', e_getpid = 42\<rparr>"

definition sample_client :: client where
  "sample_client = \<lparr>daemon = [], sockfd = 5, sock = ''/run/kdesud_:0''\<rparr>"

lemma samples [simp]:
  "peer_ok (sample_env pid) sample_session" "session_inv sample_session" "link_inv sample_session"
  "m_Buf (conn sample_session) = []" "peer_ok (sample_env pid) sample_login" "session_inv sample_login"
  "env_fork (sample_env pid) = pid"
  by (simp_all add: sample_login_def peer_ok_def sample_session_def sample_env_def sample_peer_def new_connection_def peerUid_def
      link_inv_def session_inv_def BUF_SIZE_def)

lemma sample_repo_inv [simp]: "repo_inv sample_repo"
  by (simp add: sample_repo_def add_inv)

definition sample_user :: passwd where
  "sample_user = \<lparr>pw_name = ''joe'', pw_uid = 1001, pw_gid = 100, pw_dir = ''/home/joe''\<rparr>"

definition sample_stub_sys :: stub_sys where
  "sample_stub_sys = \<lparr>y_getpwnam = (\<lambda>u. if u = ''joe'' then Some sample_user else None), y_grouplist = (\<lambda>u g. [g, 27]),
     y_refuses = (\<lambda>c. False), y_fifo = Some (1, 99), y_setpriority = True, y_initgroups = True,
     y_mkstemp = Some ''/tmp/xauth.1'', y_popen = True, y_fork = 0, y_waits = [Sw_EINTR, Sw_state 768, Sw_error]\<rparr>"

definition root_creds :: creds where
  "root_creds = \<lparr>cr_ruid = 0, cr_euid = 0, cr_suid = 0, cr_rgid = 0, cr_egid = 0, cr_sgid = 0, cr_groups = [0]\<rparr>"

definition sample_stub_state :: stub_state where
  "sample_stub_state = \<lparr>v_env = Map.empty, v_cred = root_creds, v_umask = 18, v_nice = None, v_fifo = None,
     v_print = [], v_xauthority = [], v_files = [], v_ran = []\<rparr>"

definition sample_vals :: "bytes list" where
  "sample_vals = [''ok'', '':0'', ''MIT abc'', ''ls'', ''/bin'', ''no'', ''joe'', ''50'', ''normal'', ''0'']"

definition sample_launch :: launch_env where
  "sample_launch = \<lparr>l_open = True, l_fork = 0, l_slave = 5, l_rlimit = 1024, l_tcgetattr = True, l_tcsetattr = True,
     l_find = (\<lambda>c. ''/bin/'' @ c)\<rparr>"

definition sample_child :: child_state where
  "sample_child = \<lparr>ch_signals = (\<lambda>s. Sig_default),
     ch_fds = (\<lambda>f. if f = 5 then Some Tty_slave else if f = 3 then Some (Other_file 1) else None),
     ch_env = [''LC_ALL'' \<mapsto> ''de''], ch_ctty = False, ch_opost = True\<rparr>"

definition sample_job_env :: job_env where
  "sample_job_env = \<lparr>jb_built_in = ''sudo'', jb_entry = ''sudo'',
     jb_su = \<lparr>su_stub_path = ''/lib/kdesu_stub'', su_command = ''/bin/su'', su_started = True, su_killed = True,
       su_wait = [], su_stub_env = sample_stub_env\<rparr>,
     jb_ssh = \<lparr>ssh_started = True, ssh_waits = [], ssh_stub_env = sample_stub_env\<rparr>\<rparr>"

definition sample_cookie :: cookie_env where
  "sample_cookie = \<lparr>k_x11 = True, k_environ = [''DISPLAY'' \<mapsto> ''localhost:0''], k_xauth = ''/bin/xauth'', k_started = True,
     k_line = (\<lambda>d. d @ ''  MIT-MAGIC-COOKIE-1  abc'' @ [NL])\<rparr>"

definition sample_socket :: socket_env where
  "sample_socket = \<lparr>n_environ = [''DISPLAY'' \<mapsto> '':0.0''], n_dir = ''/run'', n_lstat = Some F_other, n_unlink_link = True,
     n_access = True, n_how = By_peercred,
     n_connect = \<lparr>env_accessible = True, env_socket = 5, env_connected = False, env_cred_uid = None, env_lstat = None, env_me = 1000\<rparr>,
     n_sends = (\<lambda>m. int (length m)), n_recv = recv_of [], n_unlink_stale = True, n_socket = 4, n_bind = True,
     n_linger = True, n_reuseaddr = True, n_keepalive = True\<rparr>"

definition sample_startup :: startup_env where
  "sample_startup = \<lparr>u_rlimit = True, u_sock = sample_socket, u_listen = True, u_dup = 3,
     u_fds = \<lparr>f_range = None, f_dirfd = Some 7, f_names = [''.'', ''0'', ''4'', ''7''], f_close = (\<lambda>f. True)\<rparr>,
     u_open = {0, 1, 2, 3, 4}, u_fork = 0, u_x11 = None, u_pipe = 4\<rparr>"

lemma sample_shell:
  "\<exists>v'. stub_main sample_stub_sys sample_vals (sample_stub_state\<lparr>v_env := E\<rparr>) = Some (Stub_shell ''ls'', v')"
proof -
  have "stub_command sample_vals = ''ls''" by code_simp
  moreover have "\<exists>v'. stub_main sample_stub_sys sample_vals (sample_stub_state\<lparr>v_env := E\<rparr>) =
      Some (Stub_shell (stub_command sample_vals), v')"
    by (rule stub_reaches_shell [where pw = sample_user and f = "''/tmp/xauth.1''"])
      (simp_all add: sample_stub_sys_def sample_vals_def sample_stub_state_def root_creds_def all_uids_def)
  ultimately show ?thesis by simp
qed

lemma atoi_samples: "atoi ''.'' = 0" "atoi ''0'' = 0" "atoi ''4'' = 4" "atoi ''7'' = 7"
  by code_simp+

text \<open>A first round with a connection, and a second one in which it asks for a command.\<close>

definition sample_accept :: round_env where
  "sample_accept = (sample_round {3})\<lparr>r_accept := (\<lambda>A. if 6 \<in> A then - 1 else 6)\<rparr>"

definition sample_other :: round_env where
  "sample_other = (sample_round {3})\<lparr>r_accept := (\<lambda>A. if 7 \<in> A then - 1 else 7)\<rparr>"

definition sample_talk :: "int \<Rightarrow> round_env" where
  "sample_talk pid = (sample_round {6})\<lparr>r_recv := (\<lambda>i. recv_of (setPass_msg ''secret'' 60 @ exec_msg ''ls'' ''root'' [] [])),
     r_cmd := (\<lambda>i j. sample_env pid)\<rparr>"

lemma sample_connection:
  obtains D job D' D2 where "daemon_starts (start_daemon 3 4 None)" "daemon_step\<^sup>*\<^sup>* (start_daemon 3 4 None) D"
    "handlers D \<noteq> []" "round_fits (sample_talk 0) D" "main_round (sample_talk 0) D = Some (In_child job D')"
    "handler_at D 6 = Some (new_connection 6 sample_peer)" "round_ok sample_other D"
    "main_round sample_other D = Some (Running D2)"
proof -
  let ?S = "start_daemon 3 4 None"
  have running: "\<exists>D. r = Some (Running D) \<and> P D" if "case r of Some (Running D) \<Rightarrow> P D | _ \<Rightarrow> False" for r P
    using that by (simp split: option.split_asm round_result.split_asm)
  have child: "\<exists>job D. r = Some (In_child job D)" if "case r of Some (In_child job D) \<Rightarrow> True | _ \<Rightarrow> False" for r
    using that by (simp split: option.split_asm round_result.split_asm)
  have "case main_round sample_accept ?S of
      Some (Running D) \<Rightarrow> handlers D \<noteq> [] \<and> pipe_fd D = 4 \<and> 3 \<in> active_fds D \<and> 6 \<in> active_fds D \<and>
        handler_at D 6 = Some (new_connection 6 sample_peer) \<and>
        (case main_round sample_other D of Some (Running D2) \<Rightarrow> True | _ \<Rightarrow> False) \<and>
        (case main_round (sample_talk 0) D of Some (In_child job D') \<Rightarrow> True | _ \<Rightarrow> False)
    | _ \<Rightarrow> False"
    by code_simp
  from running [OF this] child running [of "\<lambda>_. True"] obtain D job D' D2 where D: "main_round sample_accept ?S = Some (Running D)" "handlers D \<noteq> []"
    "pipe_fd D = 4" "6 \<in> active_fds D" "main_round (sample_talk 0) D = Some (In_child job D')"
    "3 \<in> active_fds D" "handler_at D 6 = Some (new_connection 6 sample_peer)" "main_round sample_other D = Some (Running D2)"
    by blast
  have "round_fits sample_accept ?S"
    by (auto simp: round_fits_def round_ok_def sample_accept_def sample_round_def start_daemon_def FD_SETSIZE_def)
  from daemon_step.round [OF this D(1)] have "daemon_step\<^sup>*\<^sup>* ?S D" by (rule r_into_rtranclp)
  moreover have "round_fits (sample_talk 0) D"
    using D(2-4) by (simp add: round_fits_def round_ok_def sample_talk_def sample_round_def FD_SETSIZE_def)
  moreover have "daemon_starts ?S" by (auto simp: daemon_starts_def)
  moreover have "round_ok sample_other D" using D(6) by (simp add: round_ok_def sample_other_def sample_round_def FD_SETSIZE_def)
  ultimately show thesis using that D(2,5,7,8) by blast
qed

text \<open>Terminals on which the programs of the tests answer a right and a wrong password.\<close>

definition sample_accepting :: "bytes \<Rightarrow> pty" where
  "sample_accepting prompt =
     (sample_pty (hears prompt # says [] # says ''kdesu_stub'' # says_nothing # map says (tl stub_params @ [''environment'', ''end''])))
       \<lparr>extra_env := [], more_output := replicate 90 False\<rparr>"

definition sample_refusing :: "bytes \<Rightarrow> fake_step \<Rightarrow> pty" where
  "sample_refusing prompt step =
     (sample_pty (hears prompt # map hears [take 3 (after_password step), drop 3 (after_password step)] @ replicate 120 says_nothing))
       \<lparr>extra_env := [], more_output := replicate 90 False\<rparr>"

definition sample_su :: su_env where
  "sample_su = (jb_su sample_job_env)\<lparr>su_wait := [(Sel_none, Wait_other), (Sel_none, Wait_state 0)]\<rparr>"

lemma sample_talks:
  "talks sudo_prompt (sudo_process F_NEW MYPASSWORD) (length (su_wait sample_su) + 3) (sample_accepting sudo_prompt)"
  "talks sudo_prompt (sudo_process F_NEW ''broken'') (length (su_wait sample_su) + 3)
     (sample_refusing sudo_prompt (sudo_process F_NEW ''broken''))"
  "talks su_prompt (su_process ROOTPASSWORD) (length (su_wait sample_su) + 3) (sample_accepting su_prompt)"
  "talks su_prompt (su_process ''broken'') (length (su_wait sample_su) + 3) (sample_refusing su_prompt (su_process ''broken''))"
proof -
  have polls: "waitSlave_loop (slave_polls (sample_pty cs)) = Some (0, [])" for cs by (simp add: sample_pty_def checkPid_def)
  have more: "replicate 90 False = False # replicate 89 False" by (simp add: numeral_eq_Suc)
  have acc: "talks prompt step k (sample_accepting prompt)"
    if "step = F_runs_stub" "length prompt + length (after_password step) \<le> 89" for prompt step k
    using that polls more by (simp add: talks_def sample_accepting_def) (simp add: sample_pty_def)
  have ref: "talks prompt step k (sample_refusing prompt step)"
    if "step \<noteq> F_runs_stub" "length prompt + length (after_password step) \<le> 89" "3 < length (after_password step)" "k < 30" for prompt step k
  proof -
    let ?cs = "[take 3 (after_password step), drop 3 (after_password step)]"
    have "[] \<notin> set ?cs" "concat ?cs = after_password step" using that(3) by auto
    then have "\<exists>cs n. hears prompt # map hears ?cs @ replicate 120 says_nothing = hears prompt # map hears cs @ replicate n says_nothing \<and>
        [] \<notin> set cs \<and> concat cs = after_password step \<and> length prompt + length (after_password step) + k < n"
      using that by (intro exI [of _ ?cs] exI [of _ 120]) simp
    then show ?thesis
      using that(1,2) polls more by (simp add: talks_def sample_refusing_def del: list.map append.simps) (simp add: sample_pty_def)
  qed
  have len: "length (su_wait sample_su) + 3 < 30" by (simp add: sample_su_def)
  show "talks sudo_prompt (sudo_process F_NEW MYPASSWORD) (length (su_wait sample_su) + 3) (sample_accepting sudo_prompt)"
    "talks su_prompt (su_process ROOTPASSWORD) (length (su_wait sample_su) + 3) (sample_accepting su_prompt)"
    by (rule acc; code_simp)+
  show "talks sudo_prompt (sudo_process F_NEW ''broken'') (length (su_wait sample_su) + 3)
      (sample_refusing sudo_prompt (sudo_process F_NEW ''broken''))"
    by (rule ref [OF _ _ _ len]; code_simp)
  show "talks su_prompt (su_process ''broken'') (length (su_wait sample_su) + 3) (sample_refusing su_prompt (su_process ''broken''))"
    by (rule ref [OF _ _ _ len]; code_simp)
qed


text \<open>A client that has set a variable.\<close>

lemma sample_served: "served_well sample_client sample_session" "peer_ok (sample_env 1) sample_session"
  by code_simp+

lemma sample_set:
  obtains r S1 where "exchange sample_client (sample_env 1) (Op_setVar ''k'' ''v'' defTimeout ''g'') sample_session = Some (r, S1)"
    "fits (Op_setVar ''k'' ''v'' defTimeout ''g'')"
proof -
  have "setNum defTimeout = ''7200''"
    by (simp add: defTimeout_def setNum_def dec_nat.simps digit_char_def, code_simp)
  then have fits: "fits (Op_setVar ''k'' ''v'' defTimeout ''g'')"
    by (simp add: fits_def sendable_def sendable_num_def defTimeout_def int_max_def setVar_msg_def escape_concat escape_byte_def BUF_SIZE_def)
  have "env_fork (sample_env 1) \<noteq> 0" by (simp add: sample_env_def)
  from op_step [OF sample_served this fits] that fits show thesis by blast
qed

end
