(* ===== verification/Abstract.thy ===== *)
theory Abstract
  imports Daemon Traces
begin

text \<open>
  What the daemon promises, without descriptors to watch, buffers and loops: a table of
  connections, the repository and the messages sent, changed by one event at a time. An event is
  a line of a client, a new or a lost connection, the end of a child, the passing of time. The
  theory \<open>Refine\<close> shows that the main loop implements this machine; the theory \<open>Provenance\<close> what
  holds of all its runs.
\<close>

section \<open>State and events\<close>

text \<open>
  \<open>sp_end\<close> is how the process has ended, if it has: as a daemon that exits, or as the forked child
  with its job.
\<close>

record spec =
  sp_store :: repository
  sp_conns :: "nat \<Rightarrow> connection option"
  sp_sent :: "(nat \<times> bytes) list"
  sp_end :: "outcome option"

datatype event =
  Ev_expire "64 word"
| Ev_failed
| Ev_exit int int
| Ev_accept nat socket_security
| Ev_line nat cmd_env bytes
| Ev_close nat

definition spec_start :: spec where
  "spec_start = \<lparr>sp_store = new_repository, sp_conns = (\<lambda>_. None), sp_sent = [], sp_end = None\<rparr>"

section \<open>Steps\<close>

definition spec_session :: "connection \<Rightarrow> spec \<Rightarrow> session" where
  "spec_session c s = \<lparr>conn = c, store = sp_store s, sent = []\<rparr>"

definition spec_put :: "nat \<Rightarrow> session \<Rightarrow> spec \<Rightarrow> spec" where
  "spec_put i S s = s\<lparr>sp_store := store S, sp_conns := (sp_conns s)(i \<mapsto> conn S),
     sp_sent := sp_sent s @ map (Pair i) (sent S)\<rparr>"

definition spec_drop :: "nat \<Rightarrow> bytes list \<Rightarrow> spec \<Rightarrow> spec" where
  "spec_drop i ms s = s\<lparr>sp_conns := (sp_conns s)(i := None), sp_sent := sp_sent s @ map (Pair i) ms\<rparr>"

definition ending :: "outcome \<Rightarrow> outcome option" where
  "ending out = (case out of Return _ \<Rightarrow> None | _ \<Rightarrow> Some out)"

definition authorised :: "connection \<Rightarrow> cmd_env \<Rightarrow> bool" where
  "authorised c E \<longleftrightarrow> peerUid (m_peer c) = env_getuid E"

definition waits_for :: "spec \<Rightarrow> int \<Rightarrow> nat \<Rightarrow> bool" where
  "waits_for s pid i \<longleftrightarrow> (\<exists>c. sp_conns s i = Some c \<and> m_pid c = pid)"

text \<open>
  A child is reported to the last connection that waits for it. A line of a client of the same user
  that is a command is run; any other line ends the connection, after one negative reply at most.
\<close>

inductive spec_step :: "spec \<Rightarrow> event \<Rightarrow> spec \<Rightarrow> bool" where
  expires: "sp_end s = None \<Longrightarrow>
    spec_step s (Ev_expire now) (s\<lparr>sp_store := snd (expire now (sp_store s))\<rparr>)"
| fails: "sp_end s = None \<Longrightarrow> spec_step s Ev_failed (s\<lparr>sp_end := Some (Exited 1)\<rparr>)"
| exits: "sp_end s = None \<Longrightarrow> sp_conns s i = Some c \<Longrightarrow> m_pid c = pid \<Longrightarrow> \<forall>j>i. \<not> waits_for s pid j \<Longrightarrow>
    spec_step s (Ev_exit pid st) (spec_put i (child_exited st (spec_session c s)) s)"
| exits_unknown: "sp_end s = None \<Longrightarrow> \<forall>i. \<not> waits_for s pid i \<Longrightarrow> spec_step s (Ev_exit pid st) s"
| accepts: "sp_end s = None \<Longrightarrow> sp_conns s i = None \<Longrightarrow>
    spec_step s (Ev_accept i peer) (s\<lparr>sp_conns := (sp_conns s)(i \<mapsto> new_connection (int i) peer)\<rparr>)"
| command: "sp_end s = None \<Longrightarrow> sp_conns s i = Some c \<Longrightarrow> authorised c E \<Longrightarrow> parse l = Some q \<Longrightarrow>
    run_command E q (spec_session c s) = Some (out, S) \<Longrightarrow>
    spec_step s (Ev_line i E l) ((spec_put i S s)\<lparr>sp_end := ending out\<rparr>)"
| refuses: "sp_end s = None \<Longrightarrow> sp_conns s i = Some c \<Longrightarrow> \<not> authorised c E \<Longrightarrow>
    spec_step s (Ev_line i E l) (spec_drop i [] s)"
| rejected: "sp_end s = None \<Longrightarrow> sp_conns s i = Some c \<Longrightarrow> authorised c E \<Longrightarrow> parse l = None \<Longrightarrow>
    ms \<in> {[], [reply Res_NO []]} \<Longrightarrow> spec_step s (Ev_line i E l) (spec_drop i ms s)"
| closes: "sp_end s = None \<Longrightarrow> sp_conns s i = Some c \<Longrightarrow> spec_step s (Ev_close i) (spec_drop i [] s)"

inductive_cases spec_stepE: "spec_step s e t"
inductive_cases spec_lineE: "spec_step s (Ev_line i E l) t"

text \<open>Which connections an event concerns.\<close>

fun concerns :: "event \<Rightarrow> nat option" where
  "concerns (Ev_accept i _) = Some i"
| "concerns (Ev_line i _ _) = Some i"
| "concerns (Ev_close i) = Some i"
| "concerns _ = None"

section \<open>Commands only add to what is sent\<close>

definition resend :: "bytes list \<Rightarrow> session \<Rightarrow> session" where
  "resend ms S = S\<lparr>sent := ms @ sent S\<rparr>"

lemma resend_simps [simp]:
  "conn (resend ms S) = conn S" "store (resend ms S) = store S" "sent (resend ms S) = ms @ sent S"
  "resend ms S\<lparr>conn := c\<rparr> = resend ms (S\<lparr>conn := c\<rparr>)" "resend ms S\<lparr>store := r\<rparr> = resend ms (S\<lparr>store := r\<rparr>)"
  "send_msg b (resend ms S) = resend ms (send_msg b S)" "sendExitCode (resend ms S) = resend ms (sendExitCode S)"
  "respond ok b (resend ms S) = resend ms (respond ok b S)"
  by (simp_all add: resend_def respond_def send_msg_def sendExitCode_def)

lemma resend_start: "S = resend (sent S) (S\<lparr>sent := []\<rparr>)"
  by (simp add: resend_def)

lemma answer_resend [simp]: "answer ok (resend ms S) = map_prod id (resend ms) (answer ok S)"
  "answer_value v (resend ms S) = map_prod id (resend ms) (answer_value v S)"
  "forked E job (resend ms S) = map_prod id (resend ms) (forked E job S)"
  by (simp_all add: answer_def answer_value_def forked_def)

lemma run_command_resend:
  "run_command E q (resend ms S) = map_option (map_prod id (resend ms)) (run_command E q S)"
  by (cases q) (simp_all add: run_exec_def Let_def option.map_comp comp_def split: prod.split)

lemma run_command_ret: "run_command E q S = Some (Return ret, S') \<Longrightarrow> ret = 0"
  by (cases q) (auto simp: answers run_exec_def forked_def Let_def split: if_splits prod.splits)

end
