(* ===== verification/Refine.thy ===== *)
theory Refine
  imports Runs Abstract
begin

text \<open>
  The main loop implements the machine of \<open>Abstract\<close>. The functions ending in \<open>log\<close> list what
  happens in a piece of the loop, line by line, in the order of the code; \<open>abs_spec\<close> forgets the
  descriptors watched and the unfinished line of every connection. Each operation is shown to go
  through the steps that its log names, and the locale of simulations carries this to whole runs.
\<close>

section \<open>What happens in a round\<close>

function lines_log :: "nat \<Rightarrow> (nat \<Rightarrow> cmd_env) \<Rightarrow> session \<Rightarrow> event list" where
  "lines_log i E S =
     (let n = indexOf_char (m_Buf (conn S)) NL in
      if n = -1 then []
      else
        let (newbuf, buf) = cut_line (nat (n + 1)) (m_Buf (conn S)) in
        Ev_line i (E 0) newbuf #
        (case doCommand (E 0) newbuf (set_conn (\<lambda>c. c\<lparr>m_Buf := buf\<rparr>) S) of
           Some (Return ret, S) \<Rightarrow> if ret < 0 then [] else lines_log i (\<lambda>k. E (Suc k)) S
         | _ \<Rightarrow> []))"
  by pat_completeness auto
termination
  by (relation "measure (\<lambda>(i, E, S). length (m_Buf (conn S)))") (auto intro: next_line_shorter)

declare lines_log.simps [simp del]

definition handle_log :: "nat \<Rightarrow> (nat \<Rightarrow> recv_result) \<Rightarrow> (nat \<Rightarrow> cmd_env) \<Rightarrow> session \<Rightarrow> event list" where
  "handle_log i recv E S =
     (case recv (BUF_SIZE - 1 - length (m_Buf (conn S))) of
        RecvEINTR \<Rightarrow> []
      | Received d \<Rightarrow>
          (let S = set_conn (\<lambda>c. c\<lparr>m_Buf := m_Buf c @ d\<rparr>) S in
           if length (m_Buf (conn S)) = BUF_SIZE - 1 then [Ev_close i] else lines_log i E S)
      | _ \<Rightarrow> [Ev_close i])"

definition serve_log :: "round_env \<Rightarrow> nat \<Rightarrow> daemon \<Rightarrow> event list" where
  "serve_log R i D = (case handler_at D i of
     None \<Rightarrow> []
   | Some c \<Rightarrow> handle_log i (r_recv R i) (r_cmd R i) (session_of c D))"

fun reap_log :: "(int \<times> int) list \<Rightarrow> event list" where
  "reap_log [] = []"
| "reap_log ((result, status) # ws) = (if result > 0 then Ev_exit result status # reap_log ws else [])"

definition accept_log :: "round_env \<Rightarrow> daemon \<Rightarrow> event list" where
  "accept_log R D =
     (let fd = r_accept R (active_fds D) in if fd < 0 then [] else [Ev_accept (nat fd) (r_peer R)])"

definition fd_log :: "round_env \<Rightarrow> nat \<Rightarrow> daemon \<Rightarrow> event list" where
  "fd_log R i D =
     (let D' = (if i = pipe_fd D then reap (r_wait R) D else D)
      in (if i = pipe_fd D then reap_log (r_wait R) else []) @
         (if x11_fd D' = Some i then [] else if i = d_sockfd D' then accept_log R D' else serve_log R i D'))"

function visit_log :: "round_env \<Rightarrow> nat set \<Rightarrow> nat \<Rightarrow> daemon \<Rightarrow> event list" where
  "visit_log R tmp i D =
     (if \<not> i \<le> maxfd D then []
      else if i \<notin> tmp then visit_log R tmp (i + 1) D
      else fd_log R i D @
        (case visit_fd R i D of Some (Running D') \<Rightarrow> visit_log R tmp (i + 1) D' | _ \<Rightarrow> []))"
  by pat_completeness auto
termination
  by (relation "measures [\<lambda>(R, tmp, i, D). if i \<le> d_sockfd D then 1 else 0, \<lambda>(R, tmp, i, D). maxfd D + 1 - i]")
    (auto dest: visit_advances)

declare visit_log.simps [simp del]

definition round_log :: "round_env \<Rightarrow> daemon \<Rightarrow> event list" where
  "round_log R D =
     (case r_select R of
        Select_EINTR \<Rightarrow> []
      | Select_error \<Rightarrow> [Ev_failed]
      | Ready tmp \<Rightarrow> Ev_expire (r_now R) # visit_log R tmp 0 (D\<lparr>d_repo := snd (expire (r_now R) (d_repo D))\<rparr>))"

section \<open>The abstraction\<close>

abbreviation unbuffered :: "connection \<Rightarrow> connection" where
  "unbuffered c \<equiv> c\<lparr>m_Buf := []\<rparr>"

definition abs_spec :: "outcome option \<Rightarrow> daemon \<Rightarrow> spec" where
  "abs_spec e D = \<lparr>sp_store = d_repo D, sp_conns = (\<lambda>i. map_option unbuffered (handler_at D i)),
     sp_sent = sent_to D, sp_end = e\<rparr>"

fun abs_result :: "round_result \<Rightarrow> spec" where
  "abs_result (Running D) = abs_spec None D"
| "abs_result (Stopped n D) = abs_spec (Some (Exited n)) D"
| "abs_result (In_child job D) = abs_spec (Some (Child job)) D"

lemma abs_spec_simps [simp]:
  "sp_store (abs_spec e D) = d_repo D" "sp_conns (abs_spec e D) i = map_option unbuffered (handler_at D i)"
  "sp_sent (abs_spec e D) = sent_to D" "sp_end (abs_spec e D) = e"
  "abs_spec e D\<lparr>sp_end := e'\<rparr> = abs_spec e' D"
  by (simp_all add: abs_spec_def)

lemma spec_eqI:
  assumes "sp_store s = sp_store t" "\<And>i. sp_conns s i = sp_conns t i" "sp_sent s = sp_sent t" "sp_end s = sp_end t"
  shows "s = (t :: spec)"
proof -
  have "sp_conns s = sp_conns t" using assms(2) by (rule ext)
  then show ?thesis using assms(1,3,4) by (cases s; cases t) simp
qed

text \<open>What the main loop makes of the result of a connection.\<close>

definition served :: "nat \<Rightarrow> daemon \<Rightarrow> outcome \<Rightarrow> session \<Rightarrow> round_result" where
  "served i D out S = (case out of
     Return ret \<Rightarrow> Running (if ret < 0 then drop_connection i (put_session i S D) else put_session i S D)
   | Exited n \<Rightarrow> Stopped n (put_session i S D)
   | Child job \<Rightarrow> In_child job (put_session i S D))"

lemma serve_connection_served:
  "handler_at D i = Some c \<Longrightarrow> serve_connection R i D =
     map_option (\<lambda>(out, S). served i D out S) (handle (r_recv R i) (r_cmd R i) (session_of c D))"
  by (auto simp: serve_connection_def served_def handler_at_def split: if_splits option.split outcome.split)

lemma sent_to_simps [simp]:
  "sent_to (put_session i S D) = sent_to D @ map (Pair i) (sent S)"
  "sent_to (drop_connection i D) = sent_to D" "sent_to (accept_connection R D) = sent_to D"
  by (simp_all add: put_session_def drop_connection_def accept_connection_def delete_handler_def Let_def
      split: option.split)

lemma put_session_of: "handler_at D i = Some c \<Longrightarrow> put_session i (session_of c D) D = D"
proof -
  assume "handler_at D i = Some c"
  then have "(handlers D)[i := Some c] = handlers D" by (auto simp: handler_at_def list_update_same_conv split: if_splits)
  then show ?thesis by (simp add: put_session_def session_of_def)
qed

lemma put_session_buf [simp]:
  "abs_spec e (put_session i (with_buf b S) D) = abs_spec e (put_session i S D)"
  "abs_spec e (drop_connection i (put_session i (with_buf b S) D)) = abs_spec e (drop_connection i (put_session i S D))"
  by (auto intro!: spec_eqI) (simp_all add: with_buf_def)

section \<open>Lines\<close>

lemma spec_drop_abs:
  assumes "sent S' = sent S @ ms" "store S' = store S"
  shows "spec_drop i ms (abs_spec None (put_session i S D)) = abs_spec None (drop_connection i (put_session i S' D))"
  by (rule spec_eqI) (use assms in \<open>auto simp: spec_drop_def\<close>)

lemma line_step:
  assumes i: "i < length (handlers D)" and run: "doCommand E l S = Some (out, S')"
  shows "spec_step (abs_spec None (put_session i S D)) (Ev_line i E l) (abs_result (served i D out S'))"
proof -
  let ?s = "abs_spec None (put_session i S D)"
  let ?c = "unbuffered (conn S)"
  have c: "sp_conns ?s i = Some ?c" using i by simp
  have sess: "with_buf [] S = resend (sent S) (spec_session ?c ?s)"
    by (simp add: resend_def spec_session_def with_buf_def)
  have run0: "doCommand E l (with_buf [] S) = Some (out, with_buf [] S')" by (simp add: doCommand_rebuf run)
  show ?thesis
  proof (cases "authorised ?c E")
    case False
    then have "out = Return (-1) \<and> S' = S" using run by (auto simp: doCommand_def authorised_def)
    then show ?thesis using refuses [OF _ c False, of l] spec_drop_abs [of S S "[]" i D] by (simp add: served_def)
  next
    case True
    then have r: "refines E (with_buf [] S) (parse l) (Some (out, with_buf [] S'))"
      using refine_doCommand [of "with_buf [] S" E l] run0 by (simp add: authorised_def)
    show ?thesis
    proof (cases "parse l")
      case None
      with r have "out = Return (-1)" "store S' = store S" "sent S' = sent S \<or> sent S' = sent S @ [reply Res_NO []]"
        by (auto simp: refines_def rejects_def)
      then show ?thesis
        using rejected [OF _ c True None, of "[]"] rejected [OF _ c True None, of "[reply Res_NO []]"]
          spec_drop_abs [of S' S "[]" i D] spec_drop_abs [of S' S "[reply Res_NO []]" i D]
        by (auto simp: served_def)
    next
      case (Some q)
      with r obtain S2 where S2: "run_command E q (spec_session ?c ?s) = Some (out, S2)"
        "with_buf [] S' = resend (sent S) S2"
        by (cases "run_command E q (spec_session ?c ?s)") (auto simp: refines_def sess run_command_resend)
      have parts: "conn S2 = unbuffered (conn S')" "store S' = store S2" "sent S' = sent S @ sent S2"
        using arg_cong [OF S2(2), of conn] arg_cong [OF S2(2), of store] arg_cong [OF S2(2), of sent]
        by (simp_all add: with_buf_def)
      have "abs_result (served i D out S') = (spec_put i S2 ?s)\<lparr>sp_end := ending out\<rparr>"
        using run_command_ret [of E q _ _ S2] S2(1) i
        by (cases out) (auto simp: served_def spec_put_def ending_def parts intro!: spec_eqI)
      then show ?thesis using command [OF _ c True Some S2(1)] by simp
    qed
  qed
qed

lemma lines_log_idle: "NL \<notin> set (m_Buf (conn S)) \<Longrightarrow> lines_log i E S = []"
  by (simp add: lines_log.simps [of i E S])

lemma lines_log_line:
  assumes "m_Buf (conn S) = l @ NL # r" "NL \<notin> set l"
  shows "lines_log i E S = Ev_line i (E 0) (l @ [NL]) #
    (case doCommand (E 0) (l @ [NL]) (with_buf r S) of
       Some (Return ret, S) \<Rightarrow> if ret < 0 then [] else lines_log i (\<lambda>k. E (Suc k)) S
     | _ \<Rightarrow> [])"
  using assms indexOf_char_first [of NL l r]
  by (simp add: lines_log.simps [of i E S] cut_line with_buf_def Let_def nat_add_distrib)

lemma lines_trace:
  assumes "i < length (handlers D)" and "lines_loop E S = Some (out, S')"
  shows "traces spec_step (abs_spec None (put_session i S D)) (lines_log i E S) (abs_result (served i D out S'))"
  using assms(2)
proof (induction "m_Buf (conn S)" E arbitrary: S rule: line_induct)
  case (idle E)
  then show ?case by (auto simp: lines_loop_idle lines_log_idle served_def traces_nil)
next
  case (line l r E)
  then obtain out1 S1 where run: "doCommand (E 0) (l @ [NL]) (with_buf r S) = Some (out1, S1)"
    using lines_loop_line [of S l r E] by (cases "doCommand (E 0) (l @ [NL]) (with_buf r S)") auto
  note step = line_step [OF assms(1) run]
  have l: "lines_loop E S = (case out1 of
       Return ret \<Rightarrow> if ret < 0 then Some (Return ret, S1) else lines_loop (\<lambda>i. E (Suc i)) S1
     | out \<Rightarrow> Some (out, S1))"
    "lines_log i E S = Ev_line i (E 0) (l @ [NL]) #
      (case out1 of Return ret \<Rightarrow> if ret < 0 then [] else lines_log i (\<lambda>k. E (Suc k)) S1 | _ \<Rightarrow> [])"
    using lines_loop_line [of S l r E] lines_log_line [of S l r i E] run line.hyps
    by (simp_all split: outcome.split)
  have r: "m_Buf (conn S1) = r" using doCommand_frame [OF run] by (simp add: same_link_def)
  show ?case
  proof (cases "\<exists>ret. out1 = Return ret \<and> \<not> ret < 0")
    case True
    then have on: "lines_loop (\<lambda>i. E (Suc i)) S1 = Some (out, S')" using line.prems l(1) by auto
    have "spec_step (abs_spec None (put_session i S D)) (Ev_line i (E 0) (l @ [NL])) (abs_spec None (put_session i S1 D))"
      using step True by (auto simp: served_def)
    from traces_cons [OF this line.hyps(2) [OF r [symmetric] on]] show ?thesis using l(2) True by auto
  next
    case False
    then have "out = out1" "S' = S1" "lines_log i E S = [Ev_line i (E 0) (l @ [NL])]"
      using line.prems l by (auto split: outcome.splits if_splits)
    then show ?thesis using traces_one [of spec_step, OF step] by simp
  qed
qed

section \<open>Connections\<close>

lemma handle_trace:
  assumes "handler_at D i = Some c" and "handle recv E (session_of c D) = Some (out, S')"
  shows "traces spec_step (abs_spec None D) (handle_log i recv E (session_of c D)) (abs_result (served i D out S'))"
proof -
  have i: "i < length (handlers D)" using assms(1) by (auto simp: handler_at_def split: if_splits)
  have close: "traces spec_step (abs_spec None D) [Ev_close i]
      (abs_spec None (drop_connection i (put_session i (with_buf b (session_of c D)) D)))" for b
    unfolding put_session_buf using assms(1)
    by (intro traces_one) (use closes [of "abs_spec None D" i] spec_drop_abs [of "session_of c D" "session_of c D" "[]" i D]
      in \<open>simp add: put_session_of\<close>)
  show ?thesis
  proof (cases "recv (BUF_SIZE - 1 - length (m_Buf c))")
    case (Received d)
    let ?S = "with_buf (m_Buf c @ d) (session_of c D)"
    have conn: "conn (session_of c D) = c" by (simp add: session_of_def)
    have w: "set_conn (\<lambda>c. c\<lparr>m_Buf := m_Buf c @ d\<rparr>) (session_of c D) = ?S" by (simp add: with_buf_def conn)
    show ?thesis
    proof (cases "length (m_Buf c @ d) = BUF_SIZE - 1")
      case True
      then have "out = Return (-1)" "S' = ?S" "handle_log i recv E (session_of c D) = [Ev_close i]"
        using assms(2) Received unfolding handle_def handle_log_def conn w by (auto simp: conn with_buf_def)
      then show ?thesis using close by (simp add: served_def)
    next
      case False
      then have "lines_loop E ?S = Some (out, S')" "handle_log i recv E (session_of c D) = lines_log i E ?S"
        using assms(2) Received unfolding handle_def handle_log_def conn w by (auto simp: conn with_buf_def)
      then show ?thesis using lines_trace [OF i, of E ?S] assms(1) by (simp add: put_session_of)
    qed
  qed (use assms close [of "m_Buf c"] in \<open>auto simp: handle_def handle_log_def served_def session_of_def with_buf_def
      put_session_of [unfolded session_of_def] traces_nil\<close>)
qed

lemma serve_trace:
  assumes "serve_connection R i D = Some r"
  shows "traces spec_step (abs_spec None D) (serve_log R i D) (abs_result r)"
proof (cases "handler_at D i")
  case None
  then have "r = Running D" using assms by (auto simp: serve_connection_def handler_at_def split: if_splits)
  then show ?thesis using None by (simp add: serve_log_def traces_nil)
next
  case (Some c)
  then obtain out S where "handle (r_recv R i) (r_cmd R i) (session_of c D) = Some (out, S)" "r = served i D out S"
    using assms by (auto simp: serve_connection_served)
  then show ?thesis using handle_trace [OF Some] Some by (simp add: serve_log_def)
qed

lemma accept_trace:
  assumes "daemon_inv D" "\<And>A. 0 \<le> r_accept R A \<Longrightarrow> nat (r_accept R A) \<notin> A"
  shows "traces spec_step (abs_spec None D) (accept_log R D) (abs_spec None (accept_connection R D))"
proof (cases "r_accept R (active_fds D) < 0")
  case True
  then show ?thesis by (simp add: accept_log_def accept_connection_def Let_def traces_nil)
next
  case False
  define fd where "fd = r_accept R (active_fds D)"
  have fd: "0 \<le> fd" "nat fd \<notin> active_fds D" using False assms(2) by (auto simp: fd_def)
  then have free: "sp_conns (abs_spec None D) (nat fd) = None" using assms(1) by (auto simp: daemon_inv_def)
  have "unbuffered (new_connection fd p) = new_connection (int (nat fd)) p" for p
    using fd(1) by (simp add: new_connection_def)
  then have "abs_spec None (accept_connection R D) =
      (abs_spec None D)\<lparr>sp_conns := (sp_conns (abs_spec None D))(nat fd \<mapsto> new_connection (int (nat fd)) (r_peer R))\<rparr>"
    using accept_handler_at [of R D] False by (intro spec_eqI) (simp_all add: accept_frame fd_def)
  then show ?thesis
    using traces_one [of spec_step, OF accepts [OF _ free]] False by (simp add: accept_log_def Let_def fd_def)
qed

section \<open>Children\<close>

lemma child_exited_abs:
  assumes "handler_at D k = Some c"
  shows "spec_put k (child_exited st (spec_session (unbuffered c) (abs_spec None D))) (abs_spec None D) =
    abs_spec None (put_session k (child_exited st (session_of c D)) D)"
  using assms by (intro spec_eqI) (auto simp: spec_put_def child_exited_result child_exited_frame spec_session_def
      session_of_def handler_at_def split: if_splits)

lemma deliver_step:
  assumes "k \<le> length (handlers D)" "\<forall>j\<ge>k. \<not> waits_for (abs_spec None D) p j"
  shows "spec_step (abs_spec None D) (Ev_exit p st) (abs_spec None (deliver k p st D))"
  using assms
proof (induction k p st D rule: deliver.induct)
  case (1 p st D)
  then show ?case by (simp add: exits_unknown)
next
  case (2 k p st D)
  have at: "handler_at D k = handlers D ! k" using 2 by (simp add: handler_at_def)
  show ?case
  proof (cases "\<exists>c. handlers D ! k = Some c \<and> m_pid c = p")
    case True
    then obtain c where c: "handlers D ! k = Some c" "m_pid c = p" by auto
    moreover have "\<forall>j>k. \<not> waits_for (abs_spec None D) p j" using 2 by simp
    ultimately show ?thesis
      using exits [of "abs_spec None D" k "unbuffered c" p st] at child_exited_abs [of D k c st] by simp
  next
    case False
    then have "\<not> waits_for (abs_spec None D) p k" using at by (auto simp: waits_for_def)
    then have "\<forall>j\<ge>k. \<not> waits_for (abs_spec None D) p j" using "2.prems"(2) by (metis le_antisym not_less_eq_eq)
    then show ?thesis using 2 False by (cases "handlers D ! k") auto
  qed
qed

lemma reap_trace: "traces spec_step (abs_spec None D) (reap_log ws) (abs_spec None (reap ws D))"
proof (induction ws D rule: reap.induct)
  case (2 p st ws D)
  have "spec_step (abs_spec None D) (Ev_exit p st) (abs_spec None (deliver (length (handlers D)) p st D))"
    by (rule deliver_step) (auto simp: waits_for_def handler_at_def)
  then show ?case using 2 by (simp add: traces_nil traces_cons)
qed (simp add: traces_nil)

section \<open>Rounds\<close>

lemma visit_fd_trace:
  assumes "visit_fd R i D = Some r" "daemon_inv D" "\<And>A. 0 \<le> r_accept R A \<Longrightarrow> nat (r_accept R A) \<notin> A"
  shows "traces spec_step (abs_spec None D) (fd_log R i D) (abs_result r)"
proof -
  define D' where "D' = (if i = pipe_fd D then reap (r_wait R) D else D)"
  define l2 where "l2 = (if x11_fd D' = Some i then [] else if i = d_sockfd D' then accept_log R D' else serve_log R i D')"
  have inv: "daemon_inv D'" using assms(2) by (simp add: D'_def daemon_inv_reap)
  have "traces spec_step (abs_spec None D) (if i = pipe_fd D then reap_log (r_wait R) else []) (abs_spec None D')"
    by (simp add: D'_def reap_trace traces_nil)
  moreover have "traces spec_step (abs_spec None D') l2 (abs_result r)"
    using assms(1) accept_trace [OF inv assms(3)] serve_trace [of R i D' r]
    by (auto simp: visit_fd_def l2_def traces_nil simp flip: D'_def split: if_splits)
  ultimately have "traces spec_step (abs_spec None D) ((if i = pipe_fd D then reap_log (r_wait R) else []) @ l2) (abs_result r)"
    by (rule traces_trans)
  then show ?thesis by (simp only: fd_log_def Let_def flip: D'_def l2_def)
qed

lemma visit_fd_inv:
  assumes "visit_fd R i D = Some (Running D')" "daemon_inv D"
    and "\<And>A. 0 \<le> r_accept R A \<Longrightarrow> nat (r_accept R A) \<notin> A" "\<And>i. recv_ok (r_recv R i)"
  shows "daemon_inv D'"
proof -
  define E where "E = (if i = pipe_fd D then reap (r_wait R) D else D)"
  have inv: "daemon_inv E" using assms(2) by (simp add: E_def daemon_inv_reap)
  from assms(1) E_def show ?thesis
  proof (cases rule: visit_fd_cases)
    case 3
    then have "i < length (handlers E)" by (auto simp: serve_connection_def split: if_splits)
    from serve_connection_good [OF inv this assms(4)] 3 show ?thesis by (metis option.inject)
  qed (use inv daemon_inv_accept [OF inv] assms(3) in auto)
qed

lemma visit_trace:
  assumes "visit R tmp i D = Some r" "daemon_inv D"
    and "\<And>A. 0 \<le> r_accept R A \<Longrightarrow> nat (r_accept R A) \<notin> A" "\<And>i. recv_ok (r_recv R i)"
  shows "traces spec_step (abs_spec None D) (visit_log R tmp i D) (abs_result r)"
  using assms
proof (induction R tmp i D rule: visit.induct [case_names visit])
  case (visit R tmp i D)
  note prems = visit.prems
  note step = prems(1) [unfolded visit.simps [of R tmp i D]]
  show ?case
  proof (cases "i \<le> maxfd D \<and> i \<in> tmp")
    case False
    then show ?thesis using step prems visit.IH(1)
      by (cases "i \<le> maxfd D") (auto simp: visit_log.simps [of R tmp i D] traces_nil)
  next
    case True
    then obtain r' where r': "visit_fd R i D = Some r'" using step by (auto split: option.splits)
    note here = visit_fd_trace [OF r' prems(2,3)]
    show ?thesis
    proof (cases r')
      case (Running D')
      then have "visit R tmp (i + 1) D' = Some r" using True r' step by simp
      from visit.IH(2) [OF _ _ r' Running this visit_fd_inv [OF r' [unfolded Running] prems(2-4)] prems(3,4)] True
      have "traces spec_step (abs_spec None D') (visit_log R tmp (i + 1) D') (abs_result r)" by simp
      with here show ?thesis
        using True r' Running traces_trans by (fastforce simp: visit_log.simps [of R tmp i D])
    qed (use True r' step here in \<open>auto simp: visit_log.simps [of R tmp i D]\<close>)
  qed
qed

lemma round_trace:
  assumes "main_round R D = Some r" "daemon_inv D"
    and "\<And>A. 0 \<le> r_accept R A \<Longrightarrow> nat (r_accept R A) \<notin> A" "\<And>i. recv_ok (r_recv R i)"
  shows "traces spec_step (abs_spec None D) (round_log R D) (abs_result r)"
proof (cases "r_select R")
  case Select_EINTR
  then show ?thesis using assms(1) by (auto simp: main_round_def round_log_def traces_nil)
next
  case Select_error
  then show ?thesis using assms(1) traces_one [of spec_step, OF fails [of "abs_spec None D"]]
    by (auto simp: main_round_def round_log_def)
next
  case (Ready tmp)
  let ?D = "D\<lparr>d_repo := snd (expire (r_now R) (d_repo D))\<rparr>"
  have "abs_spec None D\<lparr>sp_store := snd (expire (r_now R) (d_repo D))\<rparr> = abs_spec None ?D"
    by (rule spec_eqI) (simp_all add: new_repo_frame)
  then have "spec_step (abs_spec None D) (Ev_expire (r_now R)) (abs_spec None ?D)"
    using expires [of "abs_spec None D" "r_now R"] by simp
  moreover have "daemon_inv ?D" using assms(2) by (intro daemon_inv_repo vault_expire) (simp_all add: daemon_inv_def)
  ultimately show ?thesis
    using visit_trace [of R tmp 0 ?D r] assms(1,3,4) Ready by (simp add: main_round_def round_log_def traces_cons)
qed

section \<open>Runs\<close>

text \<open>A round as a step that carries its log; the daemon goes on as long as it is running.\<close>

inductive daemon_moves :: "round_result \<Rightarrow> event list \<Rightarrow> round_result \<Rightarrow> bool" where
  moves: "round_fits R D \<Longrightarrow> main_round R D = Some r \<Longrightarrow> daemon_moves (Running D) (round_log R D) r"

inductive_cases daemon_movesE: "daemon_moves x es y"

fun result_good :: "round_result \<Rightarrow> bool" where
  "result_good (Running D) = run_inv D"
| "result_good _ = True"

interpretation ds: simulation daemon_moves spec_step abs_result result_good
proof
  show "result_good y" if "daemon_moves x es y" "result_good x" for x es y
    using that by (auto elim!: daemon_movesE dest!: round_inv) (metis option.inject result_good.elims(3))
  show "traces spec_step (abs_result x) es (abs_result y)" if "daemon_moves x es y" "result_good x" for x es y
    using that by (auto elim!: daemon_movesE intro!: round_trace simp: run_inv_def round_fits_def round_ok_def)
qed

lemma runs_steps: "runs daemon_moves x es y \<Longrightarrow> x = Running D \<Longrightarrow> y = Running D' \<Longrightarrow> daemon_step\<^sup>*\<^sup>* D D'"
proof (induction arbitrary: D' rule: runs.induct)
  case (runs_snoc s es t fs u)
  from runs_snoc.hyps(2) obtain R D1 where "t = Running D1" "round_fits R D1" "main_round R D1 = Some u"
    by (auto elim: daemon_movesE)
  then show ?case
    using runs_snoc.IH [OF runs_snoc.prems(1)] daemon_step.round runs_snoc.prems(2)
    by (auto intro: rtranclp.rtrancl_into_rtrancl)
qed simp

lemma steps_runs: "daemon_step\<^sup>*\<^sup>* D D' \<Longrightarrow> \<exists>es. runs daemon_moves (Running D) es (Running D')"
proof (induction rule: rtranclp_induct)
  case (step D1 D2)
  from step.hyps(2) obtain R where "round_fits R D1" "main_round R D1 = Some (Running D2)" by (rule daemon_stepE)
  from runs_snoc [of daemon_moves, OF _ moves [OF this]] step.IH show ?case by (elim exE) (rule exI)
qed (rule exI, rule runs_nil)

lemma abs_start: "abs_spec None (start_daemon sfd pipe x11) = spec_start"
  by (rule spec_eqI) (simp_all add: spec_start_def start_daemon_def handler_at_def)

lemma start_good: "result_good (Running (start_daemon sfd pipe x11))"
  using dm.inv_start by (auto simp: daemon_starts_def)

end
