(* ===== verification/Provenance.thy ===== *)
theory Provenance
  imports Refine
begin

text \<open>
  Where passwords come from. In every run of the daemon, each password it holds, on a connection
  or in the repository, and each password a child is started with, was given in a PASS command on
  a connection whose other end is the same user; and each child runs the command and the user of
  the EXEC line, of a connection of the same user, that was read last. It is shown as an invariant
  between the history and the state of the abstract daemon, and holds of the code by the
  simulation.
\<close>

section \<open>Histories\<close>

text \<open>A line that a connection of the same user has sent.\<close>

definition line_of_user :: "event list \<Rightarrow> nat \<Rightarrow> cmd_env \<Rightarrow> bytes \<Rightarrow> bool" where
  "line_of_user es j E l \<longleftrightarrow> Ev_line j E l \<in> set es \<and>
     (\<exists>peer. Ev_accept j peer \<in> set es \<and> peerUid peer = env_getuid E)"

definition given :: "event list \<Rightarrow> bytes \<Rightarrow> bool" where
  "given es p \<longleftrightarrow> (\<exists>j E l t. line_of_user es j E l \<and> parse l = Some (C_pass p t))"

definition started_by :: "event list \<Rightarrow> child_job \<Rightarrow> bool" where
  "started_by es job \<longleftrightarrow> (\<exists>i E l c u opts env d p.
     last es = Ev_line i E l \<and> line_of_user es i E l \<and> parse l = Some (C_exec c u opts env) \<and>
     job = exec_job d c u opts env (Some p) \<and> given es p)"

definition is_pass_key :: "bytes \<Rightarrow> bool" where
  "is_pass_key k \<longleftrightarrow> prefix ''0*'' k"

definition pass_entry :: "event list \<Rightarrow> bytes \<times> data_entry \<Rightarrow> bool" where
  "pass_entry es e \<longleftrightarrow> (is_pass_key (fst e) \<longrightarrow> (\<forall>p. entry_value (snd e) = Some p \<longrightarrow> given es p))"

definition conn_known :: "event list \<Rightarrow> nat \<Rightarrow> connection \<Rightarrow> bool" where
  "conn_known es i c \<longleftrightarrow> Ev_accept i (m_peer c) \<in> set es \<and> (\<forall>p. m_Pass c = Some p \<longrightarrow> given es p)"

definition provenance :: "event list \<Rightarrow> spec \<Rightarrow> bool" where
  "provenance es s \<longleftrightarrow> entries_ok (pass_entry es) (sp_store s) \<and>
     (\<forall>i c. sp_conns s i = Some c \<longrightarrow> conn_known es i c) \<and>
     (\<forall>job. sp_end s = Some (Child job) \<longrightarrow> started_by es job)"

section \<open>History only grows\<close>

lemma line_of_user_grows: "line_of_user es j E l \<Longrightarrow> line_of_user (es @ fs) j E l"
  by (auto simp: line_of_user_def)

lemma given_grows: "given es p \<Longrightarrow> given (es @ fs) p"
  by (auto simp: given_def intro: line_of_user_grows)

lemma conn_known_grows: "conn_known es i c \<Longrightarrow> conn_known (es @ fs) i c"
  by (auto simp: conn_known_def intro: given_grows)

lemma entries_grow: "entries_ok (pass_entry es) r \<Longrightarrow> entries_ok (pass_entry (es @ fs)) r"
  by (auto simp: entries_ok_def pass_entry_def list_all_iff intro: given_grows)

lemmas grows = given_grows conn_known_grows entries_grow

section \<open>Commands\<close>

lemma pass_key_makeKey [simp]:
  "is_pass_key (makeKey 0 a b c)" "\<not> is_pass_key (makeKey 1 a b c)" "\<not> is_pass_key (makeKey 2 a b c)"
  by (simp_all add: is_pass_key_def makeKey_def setNum_small)

lemma entries_find:
  "entries_ok (pass_entry es) r \<Longrightarrow> find (makeKey 0 a b c) r = Some p \<Longrightarrow> given es p"
  by (auto simp: find_def qmap_find_def entries_ok_def pass_entry_def list_all_iff
      dest!: map_of_SomeD split: bind_splits option.splits)

lemma run_command_known:
  assumes "run_command E q S = Some (out, S')" "entries_ok (pass_entry es) (store S)"
    and "conn_known es i (conn S)" "\<And>p t. q = C_pass p t \<Longrightarrow> given es p"
  shows "conn_known es i (conn S')"
  using assms by (cases q) (auto simp: conn_known_def answers run_exec_def forked_def sendExitCode_def Let_def
      split: if_splits prod.splits)

lemma run_command_child:
  assumes "run_command E q S = Some (Child job, S')"
  shows "\<exists>c u opts env p. q = C_exec c u opts env \<and> job = exec_job (conn S) c u opts env (Some p) \<and>
    (m_Pass (conn S) = Some p \<or> (\<exists>h a. find (makeKey 0 h a c) (store S) = Some p))"
proof (cases q)
  case (C_exec c u opts env)
  define p where "p = stored_pass (store S) (m_Host (conn S)) (auth_user (conn S) u) c (env_check_of env)"
  have stored: "\<exists>h a. find (makeKey 0 h a c) (store S) = Some x" if "p = Some x" for x
    using that by (auto simp: p_def stored_pass_def split: if_splits)
  have "run_exec E c u opts env S = Some (Child job, S')" using assms C_exec by simp
  then show ?thesis
    using stored by (cases p; cases "m_Pass (conn S)")
      (auto simp: C_exec run_exec_def forked_def answers Let_def simp flip: p_def split: if_splits)
qed (use assms in \<open>auto simp: answers sendExitCode_def Let_def split: if_splits prod.splits\<close>)

text \<open>A line that is run, seen from the history that has it as its last event.\<close>

lemma provenance_command:
  assumes "provenance es s" "sp_conns s i = Some c" "authorised c E" "parse l = Some q"
    and run: "run_command E q (spec_session c s) = Some (out, S)"
  shows "provenance (es @ [Ev_line i E l]) ((spec_put i S s)\<lparr>sp_end := ending out\<rparr>)"
proof -
  let ?es = "es @ [Ev_line i E l]"
  have conns: "conn_known ?es j d" if "sp_conns s j = Some d" for j d
    using assms(1) that by (auto simp: provenance_def intro: grows)
  have store: "entries_ok (pass_entry ?es) (sp_store s)" using assms(1) by (auto simp: provenance_def intro: grows)
  have here: "line_of_user ?es i E l"
    using conns [OF assms(2)] assms(3) by (auto simp: line_of_user_def conn_known_def authorised_def)
  have c: "conn_known ?es i (conn (spec_session c s))" "entries_ok (pass_entry ?es) (store (spec_session c s))"
    using conns [OF assms(2)] store by (simp_all add: spec_session_def)
  have "conn_known ?es i (conn S)"
    by (rule run_command_known [OF run c(2,1)]) (use here assms(4) in \<open>auto simp: given_def\<close>)
  moreover have "entries_ok (pass_entry ?es) (store S)"
    by (rule entries_run [OF run c(2)]) (use c(1) in \<open>auto simp: pass_entry_def var_key_def conn_known_def\<close>)
  moreover have "started_by ?es job" if out: "out = Child job" for job
  proof -
    from run_command_child [OF run [unfolded out]] obtain cmd u opts env p where
      e: "q = C_exec cmd u opts env" "job = exec_job (conn (spec_session c s)) cmd u opts env (Some p)"
        "m_Pass (conn (spec_session c s)) = Some p \<or> (\<exists>h a. find (makeKey 0 h a cmd) (store (spec_session c s)) = Some p)"
      by blast
    then have "given ?es p" using c entries_find [OF c(2)] by (auto simp: conn_known_def)
    then show ?thesis using here e assms(4) by (auto simp: started_by_def)
  qed
  ultimately show ?thesis
    using conns by (auto simp: provenance_def spec_put_def ending_def split: outcome.splits)
qed

lemma provenance_step: "provenance es s \<Longrightarrow> spec_step s e t \<Longrightarrow> provenance (es @ [e]) t"
proof (erule spec_stepE, goal_cases expires fails exits unknown accepts command refuses rejected closes)
  case (command i c E l q out S)
  then show ?case using provenance_command by blast
qed (auto simp: provenance_def spec_put_def spec_drop_def child_exited_result child_exited_frame spec_session_def
    new_connection_def intro: grows entries_expire, auto simp: conn_known_def intro: grows)

section \<open>Runs of the daemon\<close>

interpretation dh: simulated_history daemon_moves spec_step abs_result result_good "\<lambda>s. s = spec_start" provenance
proof
  show "provenance [] s" if "s = spec_start" for s
    using that by (simp add: provenance_def spec_start_def entries_ok_def) (simp add: new_repository_def)
qed (rule provenance_step)

end
