(* ===== verification/Daemon_Properties.thy ===== *)
theory Daemon_Properties
  imports Samples Provenance
begin

text \<open>
  The properties of the daemon as a process: its start, its runs and the children it reaps. They
  rest on the interpretations of the locale of machines on the rounds of the main loop
  (\<open>dm\<close>, \<open>dt\<close>) and of the locales of simulations and histories on the main loop and the abstract
  daemon (\<open>ds\<close>, \<open>dh\<close>). Each stands behind its claim.
\<close>

section \<open>The daemon as a whole\<close>

text \<open>
  C1. The main loop implements the abstract daemon: whatever the system answers, what has happened
  in a run from the start of the daemon, written down line by line as the code came to it, is a run
  of the machine that knows connections, commands and a repository only, and it ends in the state
  of the daemon with the descriptors and the half-read lines forgotten; also when the run ends in a
  child or in the exit of the daemon.
\<close>

theorem daemon_refines_spec:
  assumes "daemon_starts D0" and "runs daemon_moves (Running D0) es r"
  shows "traces spec_step spec_start es (abs_result r)"
  using ds.simulated [OF assms(2)] assms(1) start_good by (auto simp: daemon_starts_def abs_start)

theorem daemon_refines_spec_witness:
  "\<exists>es job D. runs daemon_moves (Running (start_daemon 3 4 None)) es (In_child job D) \<and>
    traces spec_step spec_start es (abs_result (In_child job D))"
proof -
  obtain D job D' where D: "daemon_starts (start_daemon 3 4 None)" "daemon_step\<^sup>*\<^sup>* (start_daemon 3 4 None) D"
    "round_fits (sample_talk 0) D" "main_round (sample_talk 0) D = Some (In_child job D')"
    by (rule sample_connection)
  from steps_runs [OF D(2)] obtain es where "runs daemon_moves (Running (start_daemon 3 4 None)) es (Running D)" ..
  from runs_snoc [of daemon_moves, OF this moves [OF D(3,4)]] daemon_refines_spec [OF D(1)] show ?thesis by blast
qed



text \<open>
  C11. Connections do not disturb each other: a round in which a connection has nothing to read and
  its child does not end leaves it as it is, with its password, its settings and its half-read line,
  and sends nothing to it, whatever the other connections say.
\<close>

theorem connections_isolated:
  assumes "daemon_starts D0" and "daemon_step\<^sup>*\<^sup>* D0 D" and "round_ok R D" and "main_round R D = Some (Running D')"
    and "handler_at D i = Some c" and "\<And>tmp. r_select R = Ready tmp \<Longrightarrow> i \<notin> tmp"
    and "\<forall>(p, st) \<in> set (r_wait R). p \<noteq> m_pid c"
  shows "handler_at D' i = Some c \<and>
    filter (\<lambda>m. fst m = i) (sent_to D') = filter (\<lambda>m. fst m = i) (sent_to D)"
proof -
  have "daemon_inv D" using dm.inv_reached [OF assms(1,2)] by (simp add: run_inv_def)
  from round_isolated [OF this assms(3-7)] show ?thesis
    using assms(5) by (simp add: seen_by_def)
qed

theorem connections_isolated_witness:
  "\<exists>D D'. daemon_step\<^sup>*\<^sup>* (start_daemon 3 4 None) D \<and> main_round sample_other D = Some (Running D') \<and>
    handler_at D' 6 = Some (new_connection 6 sample_peer)"
proof -
  obtain D D2 where D: "daemon_starts (start_daemon 3 4 None)" "daemon_step\<^sup>*\<^sup>* (start_daemon 3 4 None) D"
    "handler_at D 6 = Some (new_connection 6 sample_peer)" "round_ok sample_other D"
    "main_round sample_other D = Some (Running D2)"
    by (rule sample_connection)
  have "handler_at D2 6 = Some (new_connection 6 sample_peer)"
    using connections_isolated [OF D(1,2,4,5,3)] by (simp add: sample_other_def sample_round_def new_connection_def)
  then show ?thesis using D(2,5) by blast
qed

section \<open>The start\<close>





section \<open>The main loop\<close>

text \<open>
  C6. The daemon runs on: in every state that it can reach from its start, by any number of
  rounds with any answers of the system, the descriptors it watches are the listening socket, the
  pipe, the X connection and those of the open connections, each connection sits at the index of
  its descriptor in a good state, and the repository is well formed; and the next round has a
  result, whatever is read from the connections. (A round fits when new descriptors are not in
  use, and larger than that of the pipe, and no signal arrives before the first connection.)
\<close>

theorem daemon_runs_safe:
  assumes "daemon_starts D0" and "daemon_step\<^sup>*\<^sup>* D0 D"
  shows "daemon_inv D \<and> (\<forall>R. round_fits R D \<longrightarrow> (\<exists>r. main_round R D = Some r \<and> (\<forall>D'. r = Running D' \<longrightarrow> daemon_inv D')))"
proof -
  have "run_inv D" by (rule dm.inv_reached [OF assms])
  then show ?thesis using round_inv [of _ D] unfolding run_inv_def by metis
qed

theorem daemon_runs_safe_witness:
  "\<exists>D. daemon_step\<^sup>*\<^sup>* (start_daemon 3 4 None) D \<and> handlers D \<noteq> [] \<and> daemon_inv D \<and>
    (\<exists>r. main_round (sample_talk 0) D = Some r \<and> (\<forall>D'. r = Running D' \<longrightarrow> daemon_inv D'))"
proof -
  obtain D where D: "daemon_starts (start_daemon 3 4 None)" "daemon_step\<^sup>*\<^sup>* (start_daemon 3 4 None) D"
    "handlers D \<noteq> []" "round_fits (sample_talk 0) D"
    by (rule sample_connection)
  from daemon_runs_safe [OF D(1,2)] D show ?thesis by blast
qed

text \<open>
  C10. No child is started with a password that has expired: after any number of rounds, the
  password of a child is the one given on its connection, or one that is stored for the host, user
  and command of its job and whose time, at the moment at which this round began, had not come.
\<close>

theorem no_expired_password:
  assumes "daemon_starts D0" and "daemon_step\<^sup>*\<^sup>* D0 D" and "r_select R = Ready tmp"
    and "\<And>i j. time_ok (r_now R) (r_cmd R i j)" and "main_round R D = Some (In_child job D')"
  shows "\<exists>i c. handler_at D' i = Some c \<and>
    (job_pass job = m_Pass c \<or>
     (\<exists>e. repo_map (d_repo D') (makeKey 0 (m_Host c) (auth_user c (m_user (job_proc job))) (m_command (job_proc job))) = Some e \<and>
        entry_value e = job_pass job \<and> unsigned_time (r_now R) < entry_timeout e))"
  using round_passwords [OF dt.inv_reached [OF assms(1,2)] assms(3-5)] by (simp add: good_password_def)

theorem no_expired_password_witness:
  "\<exists>D job D' i c. daemon_step\<^sup>*\<^sup>* (start_daemon 3 4 None) D \<and> main_round (sample_talk 0) D = Some (In_child job D') \<and>
    handler_at D' i = Some c \<and>
    (job_pass job = m_Pass c \<or>
     (\<exists>e. repo_map (d_repo D') (makeKey 0 (m_Host c) (auth_user c (m_user (job_proc job))) (m_command (job_proc job))) = Some e \<and>
        entry_value e = job_pass job \<and> unsigned_time 50 < entry_timeout e))"
proof -
  obtain D job D' where D: "daemon_starts (start_daemon 3 4 None)" "daemon_step\<^sup>*\<^sup>* (start_daemon 3 4 None) D"
    "main_round (sample_talk 0) D = Some (In_child job D')"
    by (rule sample_connection) blast
  have "time_ok (r_now (sample_talk 0)) (r_cmd (sample_talk 0) i j)" for i j
    by (simp add: sample_talk_def sample_round_def sample_env_def time_ok_def)
  moreover have "r_select (sample_talk 0) = Ready {6}" "r_now (sample_talk 0) = 50"
    by (simp_all add: sample_talk_def sample_round_def)
  ultimately show ?thesis using no_expired_password [OF D(1,2) _ _ D(3)] D(2,3) by metis
qed

text \<open>
  C28. The last condition on a round is needed: the pipe's branch goes on to the
  handlers, so that in every state that the daemon can reach before the first connection, when
  only the pipe becomes readable (a SIGCHLD arrives), the loop indexes outside the list of handlers.
\<close>

theorem signal_before_connection:
  assumes "daemon_starts D0" and "daemon_step\<^sup>*\<^sup>* D0 D" and "handlers D = []"
    and "pipe_fd D \<noteq> d_sockfd D" and "x11_fd D \<noteq> Some (pipe_fd D)" and "r_select R = Ready {pipe_fd D}"
  shows "main_round R D = None"
proof -
  have le: "pipe_fd D \<le> maxfd D" using dm.inv_reached [OF assms(1,2)] by (simp add: run_inv_def daemon_inv_def special_fds_def)
  let ?D = "D\<lparr>d_repo := snd (expire (r_now R) (d_repo D))\<rparr>"
  have "main_round R D = visit R {pipe_fd D} (pipe_fd D) ?D"
    using assms(6) visit_only [of 0 "pipe_fd D" ?D R] le by (simp add: main_round_def)
  moreover have "visit_fd R (pipe_fd D) ?D = None"
    using assms(3-5) by (simp add: visit_fd_def serve_connection_def)
  ultimately show ?thesis using le by (subst (asm) visit.simps) simp
qed

theorem signal_before_connection_witness:
  "main_round (sample_round {4}) (start_daemon 3 4 None) = None"
  by (rule signal_before_connection [of "start_daemon 3 4 None"])
    (auto simp: daemon_starts_def start_daemon_def sample_round_def)

text \<open>
  C29. The exit code of a command reaches the connection that asked for it: when a child is
  reaped, the last connection waiting for this process number gets the code, is sent \<open>OK code\<close>
  if it had sent EXIT, and waits no longer; all others are as before. The code is between 0 and
  255, and the client reads it out of the message.
\<close>

theorem exit_code_delivered:
  assumes "j < length (handlers D)" and "handlers D ! j = Some c" and "m_pid c = pid" and "pid > 0"
    and "\<forall>i c'. j < i \<and> i < length (handlers D) \<and> handlers D ! i = Some c' \<longrightarrow> m_pid c' \<noteq> pid"
    and "0 \<le> sockfd d"
  shows "reap [(pid, st)] D =
      D\<lparr>handlers := (handlers D)[j := Some (c\<lparr>m_exitCode := WEXITSTATUS st, m_hasExitCode := True, m_pid := 0\<rparr>)],
        sent_to := sent_to D @ (if m_needExitCode c then [(j, ''OK '' @ setNum (WEXITSTATUS st) @ [NL])] else [])\<rparr> \<and>
    0 \<le> WEXITSTATUS st \<and> WEXITSTATUS st \<le> 255 \<and>
    exitCode d (\<lambda>cmd. int (length cmd)) (recv_of (''OK '' @ setNum (WEXITSTATUS st) @ [NL])) = WEXITSTATUS st"
proof -
  let ?m = "setNum (WEXITSTATUS st)"
  have range: "0 \<le> WEXITSTATUS st \<and> WEXITSTATUS st \<le> 255" by (rule WEXITSTATUS_range)
  have msg: "''OK '' @ ?m @ [NL] = reply Res_OK ?m" by (simp add: reply_def)
  have nul: "NUL \<notin> set ?m" using setNum_nat_digits [of "WEXITSTATUS st"] range by (auto simp: ctype)
  have "length ?m \<le> 1019" using range setNum_length [of "WEXITSTATUS st"] by linarith
  then have "recv_of (reply Res_OK ?m) 1023 = Received (reply Res_OK ?m)"
    by (intro recv_of_all) (simp_all add: reply_def)
  then have "exitCode d (\<lambda>cmd. int (length cmd)) (recv_of (''OK '' @ ?m @ [NL])) = WEXITSTATUS st"
    using assms(6) range command_reply_OK [OF nul] toInt_setNum [of "WEXITSTATUS st"]
    unfolding msg by (simp add: exitCode_def command_def in_int_def int_max_def)
  then show ?thesis
    using assms(4) range deliver_spec [OF assms(1) order.refl assms(2,3,5), of st]
    by (simp add: put_session_def child_exited_result child_exited_frame, simp add: session_of_def)
qed

theorem exit_code_delivered_witness:
  "reap [(77, 768)] sample_daemon =
      sample_daemon\<lparr>handlers := (handlers sample_daemon)[6 := Some ((new_connection 6 sample_peer)\<lparr>m_pid := 0, m_needExitCode := True,
          m_exitCode := 3, m_hasExitCode := True\<rparr>)],
        sent_to := [(6, ''OK 3'' @ [NL])]\<rparr> \<and>
    exitCode sample_client (\<lambda>cmd. int (length cmd)) (recv_of (''OK 3'' @ [NL])) = 3"
proof -
  have len: "length (handlers sample_daemon) = 7" and six: "handlers sample_daemon ! 6 =
      Some ((new_connection 6 sample_peer)\<lparr>m_pid := 77, m_needExitCode := True\<rparr>)" and none: "sent_to sample_daemon = []"
    by (simp_all add: sample_daemon_def nth_append)
  have code: "WEXITSTATUS 768 = 3" "setNum 3 = ''3''" by code_simp+
  have "0 \<le> sockfd sample_client" by (simp add: sample_client_def)
  with exit_code_delivered [of 6 sample_daemon _ 77 sample_client 768] show ?thesis
    using len none by (simp add: six code new_connection_def)
qed

text \<open>
  C30. Exit codes are never forgotten: on a connection that has got the exit code of one
  command, EXIT after the next EXEC is answered at once with the old code, while the new child
  is still running. When that child ends, its code is sent although nobody asks, and the client takes
  this message for the success of the command it sends next, whatever the daemon answers to that.
\<close>

theorem exit_code_stale:
  assumes "session_inv S" and "peer_ok E1 S" and "peer_ok E2 S" and "m_hasExitCode (conn S)"
    and "m_Pass (conn S) \<noteq> None" and "env_fork E1 > 0"
    and "sendable c" and "sendable u" and "sendable opts" and "list_all sendable env" and "0 \<le> sockfd d"
  shows "case doCommand E1 (exec_msg c u opts env) S of
      Some (Return ret, S1) \<Rightarrow> ret = 0 \<and> m_pid (conn S1) = env_fork E1 \<and>
        (case doCommand E2 exitCode_msg S1 of
           Some (Return r2, S2) \<Rightarrow> r2 = 0 \<and> m_pid (conn S2) = env_fork E1 \<and>
             last (sent S2) = ''OK '' @ setNum (m_exitCode (conn S)) @ [NL] \<and>
             sent (child_exited st S2) = sent S2 @ [''OK '' @ setNum (WEXITSTATUS st) @ [NL]] \<and>
             fst (command d (\<lambda>cmd. int (length cmd)) (recv_of ((''OK '' @ setNum (WEXITSTATUS st) @ [NL]) @ behind)) cmd None) = 0
         | _ \<Rightarrow> False)
    | _ \<Rightarrow> False"
proof -
  obtain t where t: "m_Timeout (conn S) = Some t" using assms(1,5) by (auto simp: session_inv_def)
  have pass: "\<not> isNull (m_Pass (conn S))" using assms(5) by (simp add: isNull_def)
  have "doCommand E1 (exec_msg c u opts env) S = run_exec E1 c u opts env S"
    using doCommand_msg [OF assms(2) parse_exec [OF assms(7-10)]] by simp
  then obtain r where exec: "doCommand E1 (exec_msg c u opts env) S =
      Some (answer True (set_conn (\<lambda>c. c\<lparr>m_pid := env_fork E1\<rparr>) (S\<lparr>store := r\<rparr>)))"
    using t pass assms(6)
    by (cases "isNull (stored_pass (store S) (m_Host (conn S)) (auth_user (conn S) u) c (env_check_of env))")
      (auto simp: run_exec_def forked_def Let_def intro: that [of "store S"])
  define S1 where "S1 = snd (answer True (set_conn (\<lambda>c. c\<lparr>m_pid := env_fork E1\<rparr>) (S\<lparr>store := r\<rparr>)))"
  have S1: "conn S1 = (conn S)\<lparr>m_pid := env_fork E1\<rparr>" by (simp add: S1_def answers)
  have "peer_ok E2 S1" using assms(3) S1 by (simp add: peer_ok_def)
  from doCommand_msg [OF this parse_simple(2)]
  have "doCommand E2 exitCode_msg S1 = Some (Return 0, sendExitCode (set_conn (\<lambda>c. c\<lparr>m_needExitCode := True\<rparr>) S1))"
    using S1 assms(4) by simp
  moreover have "fst (command d (\<lambda>cmd. int (length cmd)) (recv_of ((''OK '' @ m) @ behind)) cmd None) = 0" for m
    using assms(11) by (simp add: command_def recv_of_def command_reply_def c_str_def left_def Let_def)
  from this [of "setNum (WEXITSTATUS st) @ [NL]"]
  have "fst (command d (\<lambda>cmd. int (length cmd)) (recv_of ((''OK '' @ setNum (WEXITSTATUS st) @ [NL]) @ behind)) cmd None) = 0"
    by simp
  ultimately show ?thesis
    using exec S1 by (simp add: S1_def answer_def sendExitCode_def send_msg_def child_exited_def Let_def)
qed

theorem exit_code_stale_witness:
  "let S = sample_login\<lparr>conn := (conn sample_login)\<lparr>m_hasExitCode := True, m_exitCode := 3\<rparr>\<rparr> in
   case doCommand (sample_env 77) (exec_msg ''ls'' ''root'' [] []) S of
      Some (Return ret, S1) \<Rightarrow> ret = 0 \<and> m_pid (conn S1) = env_fork (sample_env 77) \<and>
        (case doCommand (sample_env 0) exitCode_msg S1 of
           Some (Return r2, S2) \<Rightarrow> r2 = 0 \<and> m_pid (conn S2) = env_fork (sample_env 77) \<and>
             last (sent S2) = ''OK '' @ setNum (m_exitCode (conn S)) @ [NL] \<and>
             sent (child_exited 0 S2) = sent S2 @ [''OK '' @ setNum (WEXITSTATUS 0) @ [NL]] \<and>
             fst (command sample_client (\<lambda>cmd. int (length cmd)) (recv_of ((''OK '' @ setNum (WEXITSTATUS 0) @ [NL]) @ ''NO'' @ [NL]))
               (exec_msg ''ls'' ''joe'' [] []) None) = 0
         | _ \<Rightarrow> False)
    | _ \<Rightarrow> False"
  unfolding Let_def
  by (rule exit_code_stale)
    (simp_all add: sendable_def sample_client_def, simp_all add: session_inv_def peer_ok_def sample_login_def sample_session_def
      new_connection_def sample_peer_def sample_env_def peerUid_def)

end
