(* ===== verification/Child_Properties.thy ===== *)
theory Child_Properties
  imports Samples Tests
begin

text \<open>
  The properties of the processes that run commands: the terminal, the programs that ask for the
  password, the start of the child, and the stub at its end. Each stands behind its claim.
\<close>

section \<open>The terminal\<close>



section \<open>Handing the command over\<close>





section \<open>The tests of the repository\<close>



section \<open>The password conversation\<close>

text \<open>
  C39. The password goes out at most once: in the conversations with su, sudo or doas and with ssh,
  whatever they say, either nothing is written or exactly the password and a newline, and without a
  password nothing; the conversations and the whole of the two \<^verbatim>\<open>exec\<close> return when the other side falls
  silent and the loops that wait for the child meet its end (ssh needs a password for it, unless it
  is only asked whether it does; up to two waits for the child follow). What counts as a prompt is a
  line with exactly one colon, behind which there is white space only.
\<close>

theorem password_written_once:
  assumes "falls_silent (length (su_wait E) + length w1 + length w2 + 3) p" and "pending p \<le> length (more_output p)"
    and "waitSlave_loop (slave_polls p) \<noteq> None" and "list_ex decisive (su_wait E)"
    and "ssh_waits H = [w1, w2]" and "list_ex decisive w1" and "list_ex decisive w2"
    and "check = 2 \<or> password \<noteq> None"
  shows "(\<exists>ret p'. su_exec E cmd s password check p = Some (ret, p')) \<and>
    (\<exists>ret p'. converseSU password WaitForPrompt p = Some (ret, p') \<and>
      (written p' = written p \<or> (\<exists>pw. password = Some pw \<and> written p' = written p @ [c_str pw, [NL]]))) \<and>
    (\<exists>ret s' p'. ssh_exec H h password check p = Some (ret, s', p')) \<and>
    (\<exists>ret s' p'. converseSsh password check 0 h p = Some (ret, s', p') \<and>
      (written p' = written p \<or> (\<exists>pw. password = Some pw \<and> written p' = written p @ [c_str pw, [NL]]))) \<and>
    (is_prompt line = Some True \<longleftrightarrow>
      (\<exists>u v. line = u @ '':'' @ v \<and> CHR '':'' \<notin> set (u @ v) \<and> list_all isspace v))"
proof -
  have silent: "falls_silent (0 + 2) p" "falls_silent (length (su_wait E) + 3) p" "falls_silent (length w1 + length w2 + 3) p"
    by (rule falls_silent_mono [OF assms(1)], simp)+
  obtain ret p' where su: "converseSU password WaitForPrompt p = Some (ret, p')"
    using converseSU_returns [OF silent(1) assms(2), of WaitForPrompt password] assms(3) by blast
  obtain r h' q where ssh: "converseSsh password check 0 h p = Some (r, h', q)"
    using converseSsh_returns [OF silent(1), of check password 0 h] assms(3,8) by blast
  have "\<exists>ret p'. su_exec E cmd s password check p = Some (ret, p')" by (rule su_exec_returns [OF silent(2) assms(2-4)])
  moreover have "\<exists>ret s' p'. ssh_exec H h password check p = Some (ret, s', p')"
    using ssh_exec_returns [OF silent(3) assms(5-7)] assms(3,8) by blast
  ultimately show ?thesis
    using su ssh converseSU_written [OF su] converseSsh_written [OF ssh] by (simp add: is_prompt_iff list_all_iff)
qed

theorem password_written_once_witness:
  "\<exists>ret p' r2 p2. su_exec ((jb_su sample_job_env)\<lparr>su_wait := [(Sel_ready, Wait_state 0)]\<rparr>) ''su'' new_stub (Some ''secret'') NoCheck
      ((sample_pty ([says ''Password: '', says [], says ''kdesu_stub''] @ replicate 30 says_nothing))\<lparr>more_output := replicate 30 False\<rparr>) = Some (ret, p') \<and>
    converseSU (Some ''secret'') WaitForPrompt
      ((sample_pty ([says ''Password: '', says [], says ''kdesu_stub''] @ replicate 30 says_nothing))\<lparr>more_output := replicate 30 False\<rparr>) = Some (r2, p2) \<and>
    (written p2 = [] \<or> written p2 = [''secret'', [NL]]) \<and>
    (\<exists>ret s' p'. ssh_exec \<lparr>ssh_started = True, ssh_waits = [[(Sel_none, Wait_state 0)], [(Sel_none, Wait_ECHILD)]], ssh_stub_env = sample_stub_env\<rparr>
      (new_ssh ''host'' ''joe'' ''ls'') (Some ''secret'') NoCheck
      ((sample_pty ([says ''Password: '', says [], says ''kdesu_stub''] @ replicate 30 says_nothing))\<lparr>more_output := replicate 30 False\<rparr>) = Some (ret, s', p'))"
proof -
  let ?H = "\<lparr>ssh_started = True, ssh_waits = [[(Sel_none, Wait_state 0)], [(Sel_none, Wait_ECHILD)]], ssh_stub_env = sample_stub_env\<rparr>"
  let ?p = "(sample_pty ([says ''Password: '', says [], says ''kdesu_stub''] @ replicate 30 says_nothing))\<lparr>more_output := replicate 30 False\<rparr>"
  let ?E = "(jb_su sample_job_env)\<lparr>su_wait := [(Sel_ready, Wait_state 0)]\<rparr>"
  have "falls_silent (length (su_wait ?E) + length [(Sel_none, Wait_state 0)] + length [(Sel_none, Wait_ECHILD)] + 3) ?p"
    "pending ?p \<le> length (more_output ?p)" "waitSlave_loop (slave_polls ?p) \<noteq> None" "list_ex decisive (su_wait ?E)"
    by code_simp+
  note silent = this
  have H: "ssh_waits ?H = [[(Sel_none, Wait_state 0)], [(Sel_none, Wait_ECHILD)]]" by simp
  have ends: "list_ex decisive [(Sel_none, Wait_state 0)]" "list_ex decisive [(Sel_none, Wait_ECHILD)]" by code_simp+
  have pw: "NoCheck = 2 \<or> Some ''secret'' \<noteq> None" by simp
  have "written (sample_pty cs) = []" for cs by (simp add: sample_pty_def)
  then show ?thesis
    using password_written_once [OF silent H ends pw, of "''su''" new_stub "new_ssh ''host'' ''joe'' ''ls''"]
    by (simp add: c_str_def)
qed

text \<open>
  C40. Asking ssh whether a password is needed is harmless and honest: it returns, sends no signal and
  writes nothing, it answers that one is needed only with a prompt at hand, and it never reports
  another positive value. In particular the code that would kill ssh in this case is not reached.
\<close>

theorem ssh_question_harmless:
  assumes "ssh_started E" and "falls_silent 2 p"
  shows "\<exists>ret s' p'. ssh_checkNeedPassword E s p = Some (ret, s', p') \<and>
    ret \<in> {- 1, 0, SshNeedsPassword} \<and> written p' = written p \<and> signals p' = signals p \<and>
    (ret = SshNeedsPassword \<longrightarrow> is_prompt (ssh_prompt s') = Some True)"
proof -
  let ?p = "p\<lparr>m_terminal := True\<rparr>"
  have "falls_silent (0 + 2) ?p" using assms(2) by (simp add: falls_silent_def pending_def)
  then obtain r s1 p1 where run: "converseSsh None 2 0 s ?p = Some (r, s1, p1)" using converseSsh_returns [of 0 ?p 2] by blast
  note q = converseSsh_question [OF run]
  show ?thesis
  proof (cases "r < 0")
    case True
    then show ?thesis using assms(1) run q by (simp add: ssh_checkNeedPassword_def ssh_exec_def)
  next
    case False
    then show ?thesis using assms(1) run q by (auto simp: ssh_checkNeedPassword_def ssh_exec_def SshNeedsPassword_def)
  qed
qed

theorem ssh_question_harmless_witness:
  "\<exists>ret s' p'. ssh_checkNeedPassword \<lparr>ssh_started = True, ssh_waits = [], ssh_stub_env = sample_stub_env\<rparr> (new_ssh ''host'' ''joe'' ''ls'')
      (sample_pty ([says ''hello'', says ''Password:''] @ replicate 20 says_nothing)) = Some (ret, s', p') \<and>
    written p' = [] \<and> (ret = SshNeedsPassword \<longrightarrow> is_prompt (ssh_prompt s') = Some True)"
proof -
  let ?E = "\<lparr>ssh_started = True, ssh_waits = [], ssh_stub_env = sample_stub_env\<rparr>"
  let ?p = "sample_pty ([says ''hello'', says ''Password:''] @ replicate 20 says_nothing)"
  have "falls_silent 2 ?p" by code_simp
  moreover have "written ?p = []" by (simp add: sample_pty_def)
  ultimately show ?thesis using ssh_question_harmless [of ?E ?p] by (metis ssh_env.select_convs(1))
qed

section \<open>The start of a child\<close>

text \<open>
  C35. The program behind the terminal gets nothing of the caller's but the environment: when
  it is executed, the only open descriptors are 0, 1 and 2, all of them the terminal, as long as
  those that were open lie below a limit that fits an \<^verbatim>\<open>int\<close>; all signals have their default
  action but \<^verbatim>\<open>SIGHUP\<close>, which is ignored. With an unlimited number of descriptors the loop that
  closes them does nothing.
\<close>

theorem child_descriptors:
  assumes "pty_exec L prog args ch p = (Child_execv path argv ch', p')"
    and "ch_fds ch (l_slave L) = Some Tty_slave"
  shows "(unat (l_rlimit L) < 2 ^ 31 \<and> (\<forall>f. ch_fds ch f \<noteq> None \<longrightarrow> f < unat (l_rlimit L)) \<longrightarrow>
      (\<forall>f. ch_fds ch' f = (if f < 3 then Some Tty_slave else None))) \<and>
    (\<forall>s. 1 \<le> s \<and> s < NSIG \<longrightarrow> ch_signals ch' s = (if s = SIGHUP then Sig_ignored else Sig_default)) \<and>
    ch_ctty ch' \<and> argv = path # args \<and>
    (l_rlimit L = - 1 \<longrightarrow> (\<forall>f. 3 \<le> f \<longrightarrow> ch_fds ch' f = ch_fds ch f))"
proof -
  from assms(1) obtain ch1 where s: "setupTTY L ch = (0, ch1)"
    and ch': "ch' = ch1\<lparr>ch_env := child_environment (extra_env p) (ch_env ch)\<rparr>" and argv: "argv = path # args"
    by (rule pty_exec_child)
  note fds = setup_fds [OF assms(2) s]
  have sig: "ch_signals ch1 = (reset_signals 1 (ch_signals ch))(SIGHUP := Sig_ignored)" "ch_ctty ch1"
    using s by (auto simp: setupTTY_def Let_def split: if_splits)
  have all: "\<forall>f. ch_fds ch' f = (if f < 3 then Some Tty_slave else None)"
    if r: "unat (l_rlimit L) < 2 ^ 31" and o: "\<forall>f. ch_fds ch f \<noteq> None \<longrightarrow> f < unat (l_rlimit L)"
  proof
    fix f
    have "\<not> f < unat (l_rlimit L) \<Longrightarrow> ch_fds ch f = None" using o by blast
    then show "ch_fds ch' f = (if f < 3 then Some Tty_slave else None)"
      unfolding ch' by (simp add: fds int_of_rlim_small [OF r] del: of_nat_unat)
  qed
  have inf: "ch_fds ch' f = ch_fds ch f" if "l_rlimit L = - 1" "3 \<le> f" for f
  proof -
    have "int_of_rlim (l_rlimit L) = - 1" unfolding that(1) by code_simp
    then show ?thesis using that(2) unfolding ch' by (simp add: fds)
  qed
  have "ch_signals ch' s = (if s = SIGHUP then Sig_ignored else Sig_default)" if "1 \<le> s" "s < NSIG" for s
    using that sig(1) ch' by (simp add: reset_signals)
  then show ?thesis using all inf sig(2) ch' argv by simp
qed

theorem child_descriptors_witness:
  "\<exists>path argv ch'. fst (pty_exec sample_launch ''su'' [''root''] sample_child (sample_pty [])) = Child_execv path argv ch' \<and>
    ch_fds ch' 3 = None \<and> ch_fds ch' 1 = Some Tty_slave \<and> argv = path # [''root'']"
proof -
  let ?r = "pty_exec sample_launch ''su'' [''root''] sample_child (sample_pty [])"
  have "case fst ?r of Child_execv path argv ch' \<Rightarrow> path = ''/bin/su'' | _ \<Rightarrow> False"
    by (simp add: pty_exec_def pty_init_def setupTTY_def program_path_def sample_launch_def sample_pty_def Let_def)
  then obtain path argv ch' p' where run: "?r = (Child_execv path argv ch', p')" by (cases ?r) (auto split: launch_end.splits)
  have c: "unat (l_rlimit sample_launch) < 2 ^ 31 \<and> (\<forall>f. ch_fds sample_child f \<noteq> None \<longrightarrow> f < unat (l_rlimit sample_launch))"
    "ch_fds sample_child (l_slave sample_launch) = Some Tty_slave"
    by (auto simp: sample_launch_def sample_child_def)
  from child_descriptors [OF run c(2)] c(1) run show ?thesis by auto
qed



section \<open>The stub\<close>

text \<open>
  C12. The command never runs with more rights than those of the user it is for: started by
  root, the stub becomes the shell only with all three user numbers those of that user, so that a
  user other than root cannot change back, with the groups of that user, and only if none of the
  calls that drop privileges was refused; the programs it runs on the way have the same rights.
\<close>

theorem stub_drops_privileges:
  assumes "all_uids 0 (v_cred v)" and "v_ran v = []" and "stub_main Y vals v = Some (Stub_shell cmd, v')"
  shows "\<exists>pw. y_getpwnam Y (vals ! 6) = Some pw \<and> cmd = stub_command vals \<and> all_uids (pw_uid pw) (v_cred v') \<and>
    (\<forall>p \<in> set (v_ran v'). fst (snd p) = v_cred v') \<and>
    (pw_uid pw \<noteq> 0 \<longrightarrow> sys_setuid 0 (v_cred v') = None \<and> all_gids (pw_gid pw) (v_cred v') \<and>
       \<not> y_refuses Y Call_setgid \<and> \<not> y_refuses Y Call_setuid \<and>
       (y_initgroups Y \<longrightarrow> \<not> y_refuses Y Call_initgroups \<and> cr_groups (v_cred v') = y_grouplist Y (pw_name pw) (pw_gid pw)))"
proof -
  obtain pw where pw: "y_getpwnam Y (vals ! 6) = Some pw" "all_uids (pw_uid pw) (v_cred v')"
    "\<forall>p \<in> set (v_ran v'). fst (snd p) = v_cred v'"
    "pw_uid pw \<noteq> 0 \<longrightarrow> all_gids (pw_gid pw) (v_cred v') \<and> \<not> y_refuses Y Call_setgid \<and> \<not> y_refuses Y Call_setuid \<and>
       (y_initgroups Y \<longrightarrow> \<not> y_refuses Y Call_initgroups \<and> cr_groups (v_cred v') = y_grouplist Y (pw_name pw) (pw_gid pw))"
    using stub_shell_creds [OF assms] by blast
  have "pw_uid pw \<noteq> 0 \<Longrightarrow> sys_setuid 0 (v_cred v') = None" using pw(2) by (simp add: sys_setuid_def all_uids_def)
  then show ?thesis using pw stub_shell_env [OF assms(3)] by blast
qed

theorem stub_drops_privileges_witness:
  "\<exists>v'. stub_main sample_stub_sys sample_vals (sample_stub_state\<lparr>v_env := Map.empty\<rparr>) = Some (Stub_shell ''ls'', v') \<and>
    all_uids 1001 (v_cred v') \<and> sys_setuid 0 (v_cred v') = None \<and> cr_groups (v_cred v') = [100, 27]"
proof -
  obtain v' where run: "stub_main sample_stub_sys sample_vals (sample_stub_state\<lparr>v_env := Map.empty\<rparr>) = Some (Stub_shell ''ls'', v')"
    using sample_shell by blast
  have "all_uids 0 (v_cred (sample_stub_state\<lparr>v_env := Map.empty\<rparr>))" "v_ran (sample_stub_state\<lparr>v_env := Map.empty\<rparr>) = []"
    by (simp_all add: sample_stub_state_def root_creds_def all_uids_def)
  from stub_drops_privileges [OF this run] run show ?thesis
    by (auto simp: sample_stub_sys_def sample_vals_def sample_user_def split: if_splits)
qed

text \<open>
  C37. The result of the command comes back: where the child of the stub becomes the shell, its
  parent waits for it, however often it is interrupted, and exits with the status of the command,
  or with 1 if the command was killed; the file with the X cookie is gone again.
\<close>

theorem stub_reports_result:
  assumes "stub_main (Y\<lparr>y_fork := 0\<rparr>) vals v = Some (Stub_shell cmd, v1)" and "0 < n"
    and "v_xauthority v = []" and "\<forall>f. y_mkstemp Y = Some f \<longrightarrow> f \<noteq> [] \<and> f \<notin> fst ` set (v_files v)"
    and "y_waits Y = replicate k Sw_EINTR @ [Sw_state st, Sw_error]"
  shows "\<exists>v2. stub_main (Y\<lparr>y_fork := n\<rparr>) vals v = Some (Stub_exit (if WIFEXITED st then WEXITSTATUS st else 1), v2) \<and>
    v_files v2 = v_files v"
  by (rule stub_parent [OF assms])

theorem stub_reports_result_witness:
  "\<exists>v2. stub_main (sample_stub_sys\<lparr>y_fork := 77\<rparr>) sample_vals (sample_stub_state\<lparr>v_env := Map.empty\<rparr>) = Some (Stub_exit 3, v2) \<and>
    v_files v2 = []"
proof -
  let ?v = "sample_stub_state\<lparr>v_env := Map.empty\<rparr>"
  have zero: "sample_stub_sys\<lparr>y_fork := 0\<rparr> = sample_stub_sys" by (simp add: sample_stub_sys_def)
  obtain v1 where run: "stub_main (sample_stub_sys\<lparr>y_fork := 0\<rparr>) sample_vals ?v = Some (Stub_shell ''ls'', v1)"
    unfolding zero using sample_shell by blast
  have w: "y_waits sample_stub_sys = replicate 1 Sw_EINTR @ [Sw_state 768, Sw_error]" by (simp add: sample_stub_sys_def)
  have e: "v_xauthority ?v = []" "v_files ?v = []" by (simp_all add: sample_stub_state_def)
  have "WIFEXITED 768" "WEXITSTATUS 768 = 3" by code_simp+
  then show ?thesis
    using stub_reports_result [OF run _ e(1) _ w, of 77] e(2) by (simp add: sample_stub_sys_def)
qed

text \<open>
  C38. The X cookie is a name and a key with one blank between them, or empty, so that it fits the
  line in which the stub gets it; from a listing with three words it is the last two, however they
  are spaced; and the stub that gets display and cookie registers it under the name of the display
  under which it was asked for.
\<close>

theorem cookie_fits_line:
  "let d = e_display (with_cookie K E); a = e_displayAuth (with_cookie K E) in
     (a = [] \<or> (\<exists>n k. a = n @ CHR '' '' # k \<and> word_ok n \<and> word_ok k)) \<and> NL \<notin> set a \<and>
     (\<forall>w n k. k_x11 K \<and> k_xauth K \<noteq> [] \<and> k_started K \<and> qgetenv ''DISPLAY'' (k_environ K) \<noteq> [] \<and>
        byte_words (k_line K (query_display d)) = [w, n, k] \<longrightarrow> a = n @ CHR '' '' # k) \<and>
     (\<forall>Y vals v v'. vals ! 1 = d \<and> vals ! 2 = a \<and> d \<noteq> ''no'' \<and> a \<noteq> [] \<and> stub_display Y vals v = Inr v' \<longrightarrow>
        v_ran v' = v_ran v @ [(''xauth >/dev/null 2>&1'', v_cred v, ''add '' @ query_display d @ '' '' @ a @ [NL])])"
proof -
  have auth: "e_displayAuth (with_cookie K E) \<in> {[], xauth_cookie (k_line K (query_display (c_display (getXCookie K))))}"
    by (auto simp: with_cookie_simps getXCookie_def Let_def)
  have full: "e_displayAuth (with_cookie K E) = xauth_cookie (k_line K (query_display (e_display (with_cookie K E))))"
    if "k_x11 K" "k_xauth K \<noteq> []" "k_started K" "qgetenv ''DISPLAY'' (k_environ K) \<noteq> []"
    using that by (simp add: with_cookie_simps getXCookie_def Let_def)
  have "(w = [] \<or> (\<exists>n k. w = n @ CHR '' '' # k \<and> word_ok n \<and> word_ok k)) \<and> NL \<notin> set w"
    if "w \<in> {[], xauth_cookie line}" for w line
  proof (cases "w = []")
    case False
    with that have "w = xauth_cookie line" by simp
    with xauth_cookie_shape [of line] False obtain n k where w: "w = n @ CHR '' '' # k" "word_ok n" "word_ok k"
      by blast
    then have "NL \<notin> set w" by (auto simp: word_ok_def dest: bspec [where x = NL])
    with w show ?thesis by blast
  qed simp
  from this [OF auth] have shape: "let a = e_displayAuth (with_cookie K E) in
      (a = [] \<or> (\<exists>n k. a = n @ CHR '' '' # k \<and> word_ok n \<and> word_ok k)) \<and> NL \<notin> set a" unfolding Let_def .
  have listing: "e_displayAuth (with_cookie K E) = n @ CHR '' '' # k"
    if "k_x11 K \<and> k_xauth K \<noteq> [] \<and> k_started K \<and> qgetenv ''DISPLAY'' (k_environ K) \<noteq> [] \<and>
      byte_words (k_line K (query_display (e_display (with_cookie K E)))) = [w, n, k]" for w n k
    using that full xauth_cookie_result(1) by simp
  have registers: "v_ran v' = v_ran v @ [(''xauth >/dev/null 2>&1'', v_cred v,
      ''add '' @ query_display (e_display (with_cookie K E)) @ '' '' @ e_displayAuth (with_cookie K E) @ [NL])]"
    if "vals ! 1 = e_display (with_cookie K E) \<and> vals ! 2 = e_displayAuth (with_cookie K E) \<and>
      e_display (with_cookie K E) \<noteq> ''no'' \<and> e_displayAuth (with_cookie K E) \<noteq> [] \<and>
      stub_display Y vals v = Inr v'" for Y vals v v'
    using stub_display_registers [of Y vals v v'] that by metis
  show ?thesis
    unfolding Let_def
    by (intro conjI allI impI; (rule shape [unfolded Let_def, THEN conjunct1] shape [unfolded Let_def, THEN conjunct2] |
      erule listing registers))
qed

theorem cookie_fits_line_witness:
  "e_displayAuth (with_cookie sample_cookie sample_stub_env) = ''MIT-MAGIC-COOKIE-1 abc''"
proof -
  have k: "k_x11 sample_cookie" "k_xauth sample_cookie \<noteq> []" "k_started sample_cookie"
    "qgetenv ''DISPLAY'' (k_environ sample_cookie) \<noteq> []"
    by (simp_all add: sample_cookie_def qgetenv_def)
  have "byte_words (k_line sample_cookie (query_display (e_display (with_cookie sample_cookie sample_stub_env)))) =
      ['':0'', ''MIT-MAGIC-COOKIE-1'', ''abc'']"
    by code_simp
  with k show ?thesis using cookie_fits_line [of sample_cookie sample_stub_env] by (auto simp: Let_def)
qed

end
