(* ===== verification/Spec2Isabelle.thy ===== *)
theory Spec2Isabelle
  imports Daemon_Properties Child_Properties
begin

text \<open>
  A verification library for \<^bold>\<open>kdesu\<close>, the KDE library for running commands as another
  user. Its source files are under \<^verbatim>\<open>src/src/\<close>, its tests under \<^verbatim>\<open>src/autotests/\<close> and
  \<^verbatim>\<open>src/src/kdesud/autotests/\<close>.

  \<^bold>\<open>The program.\<close> An application uses \<^verbatim>\<open>KDESu::Client\<close> (\<^verbatim>\<open>client.cpp\<close>) to talk over a Unix socket
  to the daemon \<^verbatim>\<open>kdesud\<close> (\<^verbatim>\<open>kdesud/\<close>), one line per command. The daemon has one
  \<^verbatim>\<open>ConnectionHandler\<close> per connection (\<^verbatim>\<open>handler.cpp\<close>), which takes a line apart with the
  \<^verbatim>\<open>Lexer\<close> (\<^verbatim>\<open>lexer.cpp\<close>), checks the user at the other end (\<^verbatim>\<open>secure.cpp\<close>) and keeps passwords and
  variables in the \<^verbatim>\<open>Repository\<close> (\<^verbatim>\<open>repo.cpp\<close>), from which \<^verbatim>\<open>expire()\<close> drops what is due in each round
  of the main loop (\<^verbatim>\<open>kdesud.cpp\<close>). EXEC forks a child that runs \<^verbatim>\<open>SuProcess\<close> or \<^verbatim>\<open>SshProcess\<close>
  (\<^verbatim>\<open>suprocess.cpp\<close>, \<^verbatim>\<open>sshprocess.cpp\<close>): on a pseudo terminal (\<^verbatim>\<open>ptyprocess.cpp\<close>) it answers the
  password prompt of su, sudo, doas or ssh and then tells the program \<^verbatim>\<open>kdesu_stub\<close>
  (\<^verbatim>\<open>kdesu_stub.c\<close>), started by them with the rights of root, what to run and as whom
  (\<^verbatim>\<open>stubprocess.cpp\<close>), with the X cookie of \<^verbatim>\<open>kcookie.cpp\<close>. The stub drops its rights and becomes the
  shell of the command; the daemon gives the exit code to the client that asks for it.

  \<^bold>\<open>How the code is modelled.\<close> A class is a record with its members, an operation a function from
  the record to the record; errors are \<^verbatim>\<open>option\<close>, sum or integer values as in the code, and
  \<^const>\<open>None\<close> is undefined behaviour in the lexer, the handler and the main loop (a read outside a
  buffer, an index outside a list). Byte arrays are lists of characters; where null and empty
  differ, an option of them (\<open>qbytes\<close>). Machine integers are words where wrap-around matters (times,
  timeouts, user numbers, the limit of descriptors). What comes from the system, from Qt or from KDE
  libraries is an argument: the answers of system calls as fields of an environment record, those
  of calls in a loop as lists or functions. Loops are structural recursion, or functions with a
  measure; those that wait for the outside consume a list of answers and are \<^const>\<open>None\<close> when it
  ends, so a theorem that has a result says which answers lead to it.

  \<^bold>\<open>The theories.\<close>
  \<^item> \<open>Prelude\<close>: bytes, character classes, reading from a descriptor, the status of a child, and the
    locale \<open>machine\<close> (an invariant of a step relation). \<open>Traces\<close>: runs with their events, and the
    locales \<open>simulation\<close>, \<open>history\<close> (what the events tell of the state) and \<open>simulated_history\<close>,
    which has a fact about the histories of one machine for a machine that implements it. \<open>Qt_Bytes\<close>: the operations of \<^verbatim>\<open>QByteArray\<close>.
    \<open>Qmap\<close>: \<^verbatim>\<open>QMap\<close> by the locale \<open>ordered_map\<close>. \<open>Codec\<close>: the locale \<open>stream_codec\<close> of encodings that
    are read back from a stream. \<open>Environ\<close>: the environment of a process.
  \<^item> \<open>Lexer\<close>: \<open>lex\<close> works on a position in the buffer as the code does; a lexer on the remaining bytes
    is its reference. \<open>Repo\<close>: the repository as a map with a cached next expiry. \<open>Secure\<close>: the
    credentials on each platform.
  \<^item> \<open>Handler\<close>: \<open>doCommand\<close> with a definition per command; \<open>Protocol\<close>: the abstract commands, their
    parser and effect, and that \<open>doCommand\<close> refines them; \<open>Roundtrip\<close>: the messages of the client
    are parsed as meant; \<open>Handle\<close>: reading and cutting lines; \<open>Secrecy\<close>: keys of passwords and
    variables are apart, and what every entry of the repository satisfies.
  \<^item> \<open>Client\<close>: quoting, messages, replies, connecting, starting the daemon, the operations of the class
    with the constants of \<^verbatim>\<open>defaults.h\<close>; \<open>Service\<close>: client and daemon together implement a table of
    variables with groups and times, stated as \<open>service\<close> without messages, keys and clocks of the daemon.
  \<^item> \<open>Daemon\<close>: one round of the main loop and its invariant; \<open>Runs\<close>: rounds as a step relation, and
    what a round does not touch; \<open>Clock\<close>: what is in the repository within a round has not expired;
    \<open>Startup\<close>: the socket, the descriptors, the signal handlers and the start of \<^verbatim>\<open>main()\<close>.
  \<^item> \<open>Abstract\<close>: the daemon without descriptors, buffers and loops, as a machine on a table of
    connections and the repository; \<open>Refine\<close>: the main loop simulates it, with the events that the
    code came to; \<open>Provenance\<close>: an invariant of its histories, the origin of every password.
  \<^item> \<open>Pty\<close>: the line buffer of the terminal, waiting for the child, the exit string; \<open>Launch\<close>: forking
    and the set-up of the child; \<open>Stub\<close>: both ends of the conversation; \<open>StubMain\<close>: the rest of the
    stub; \<open>Su\<close>, \<open>Ssh\<close>: the conversations with the programs; \<open>Cookie\<close>: the X cookie; \<open>Handover\<close>: the child
    of the daemon, with password and parameters on one terminal; \<open>Tests\<close>: the tests of the repository,
    with the programs that stand in for su and sudo.
  \<^item> \<open>Samples\<close>: concrete values for the witnesses. The properties: this theory (protocol, passwords,
    variables, lexer, repository, replies, peers), \<open>Daemon_Properties\<close> and \<open>Child_Properties\<close>.

  \<^bold>\<open>What is shown.\<close> The daemon: it accepts exactly the language of its protocol, never fails
  whatever is sent, is independent of how the stream is cut, keeps its invariant in every state it
  reaches, and answers once; every run of it is a run of the abstract daemon; connections do not
  disturb each other. Passwords: all of them come from PASS lines of the user himself, they are used
  only for the command they were given for and only before their time is over, are forgotten on
  request, and do not show in any query. The libraries: what the client sends is what the daemon
  reads, and back, and any sequence of operations of a client is a run of the table of variables. The child: the conversations return when the other side falls silent; the password
  is written once and only at a prompt; settings, environment and command arrive unchanged; the
  command runs with the rights of its user and nothing else; its exit code comes back. The tests of
  the repository pass, however the output of the programs is cut into reads. Where the code does not
  do what it means to, a property states what it does instead.

  \<^bold>\<open>Bounds.\<close> The line buffer of a connection has 1024 bytes (\<open>BUF_SIZE\<close>), a line of the stub 8192
  (\<open>STUB_BUFSIZE\<close>), the path of a socket 108 (\<open>SUN_PATH\<close>); theorems on longer input say so in
  their hypotheses. A descriptor that the daemon accepts must be below 1024 (\<open>FD_SETSIZE\<close>): the code
  does not test it, and what \<^verbatim>\<open>FD_SET\<close> does otherwise is undefined. Times and timeouts are such that
  their sum stays below the range of the type that holds it, where a theorem adds them. No fuel is
  used: loops that wait for the outside consume the answers they get.

  \<^bold>\<open>Not modelled.\<close> Logging and translated messages; the description of the daemon for
  \<^verbatim>\<open>--help\<close>; events of the X connection, which the code reads and drops (how the daemon ends when that
  connection is lost is \<open>xio_errhandler\<close> of \<open>Startup\<close>); allocations that fail in the stub, and the
  system's refusal to run the shell of the command; build files and translations.
\<close>

section \<open>The protocol\<close>

text \<open>
  C2. Running one line in the daemon is parsing it and running the command it holds. A line
  from another user is rejected without any effect; a line that does not parse is rejected
  and leaves the repository as it was, with at most one negative reply.
\<close>

theorem doCommand_refines_protocol:
  "if peerUid (m_peer (conn S)) \<noteq> env_getuid E then doCommand E s S = Some (Return (-1), S)
   else case parse s of
     Some c \<Rightarrow> doCommand E s S = run_command E c S
   | None \<Rightarrow> (\<exists>S'. doCommand E s S = Some (Return (-1), S') \<and> store S' = store S \<and>
       sent S' \<in> {sent S, sent S @ [reply Res_NO []]})"
  using refine_doCommand [of S E s]
  by (auto simp: refines_def rejects_def doCommand_def split: option.splits)

text \<open>
  C5. Reading from a connection never has undefined behaviour: whatever the peer sends, the
  call returns, keeps the repository well formed, returns 0 or -1 unless it ends the daemon or
  continues as a forked child, and when it returns 0 the buffer holds no complete line and has
  room for more, a password implies a timeout, and the call can be repeated.
\<close>

theorem handle_safe:
  assumes "link_inv S" and "recv_ok recv"
  shows "\<exists>out S'. handle recv E S = Some (out, S') \<and> repo_inv (store S') \<and>
    (\<forall>ret. out = Return ret \<longrightarrow> ret = 0 \<and> link_inv S' \<or> ret = -1)"
  using handle_good [OF assms, of E] by metis

theorem handle_safe_witness:
  "\<exists>out S'. handle (recv_of ''PING'') (\<lambda>i. sample_env 0) sample_session = Some (out, S') \<and>
    repo_inv (store S') \<and> (\<forall>ret. out = Return ret \<longrightarrow> ret = 0 \<and> link_inv S' \<or> ret = -1)"
  by (rule handle_safe) simp_all

text \<open>
  C13. It does not matter how the bytes of the peer are cut into reads: as long as they fit the
  buffer, two reads run the same commands as one read of all the bytes.
\<close>

theorem handle_stream_independent:
  assumes "link_inv S" and "d1 \<noteq> []" and "d2 \<noteq> []"
    and "length (m_Buf (conn S)) + length d1 + length d2 < BUF_SIZE - 1"
    and "handle (recv_of d1) E S = Some (Return 0, S1)"
  shows "handle (recv_of (d1 @ d2)) E S =
    handle (recv_of d2) (\<lambda>i. E (i + count_list (m_Buf (conn S) @ d1) NL)) S1"
  by (rule handle_chunks [OF assms])

theorem handle_stream_independent_witness:
  "handle (recv_of ((''PING'' @ [NL] @ ''PI'') @ ''NG'')) (\<lambda>i. sample_env 0) sample_session =
    handle (recv_of ''NG'') (\<lambda>i. sample_env 0) ((with_buf ''PI'' sample_session)\<lparr>sent := [''OK'' @ [NL]]\<rparr>)"
proof -
  let ?S = "(with_buf ''PI'' sample_session)\<lparr>sent := [''OK'' @ [NL]]\<rparr>"
  have run: "handle (recv_of (''PING'' @ [NL] @ ''PI'')) (\<lambda>i. sample_env 0) sample_session = Some (Return 0, ?S)"
    by code_simp
  show ?thesis
    using handle_stream_independent [OF _ _ _ _ run, of "''NG''"] by (simp add: BUF_SIZE_def)
qed

section \<open>Passwords\<close>

text \<open>
  C8. EXEC runs a command with a password of the right origin only: the job of the forked
  child carries the command and user of the message and a password which is either the one
  given with PASS on the same connection, or the one stored for the same host, user and
  command, and then only if it was stored with the same environment. Without either, EXEC is
  answered NO and changes nothing.
\<close>

theorem exec_uses_known_password:
  assumes "session_inv S" and "peer_ok E S" and "env_fork E = 0"
    and "sendable c" and "sendable u" and "sendable opts" and "list_all sendable env"
  shows "case doCommand E (exec_msg c u opts env) S of
      Some (Child job, S') \<Rightarrow>
        m_command (job_proc job) = c \<and> m_user (job_proc job) = u \<and>
        (job_pass job = m_Pass (conn S) \<or>
         job_pass job = find (makeKey 0 (m_Host (conn S)) (auth_user (conn S) u) c) (store S) \<and>
         bytes_of (find (makeKey 2 (m_Host (conn S)) (auth_user (conn S) u) c) (store S)) = bytes_of (env_check_of env)) \<and>
        \<not> isNull (job_pass job)
    | Some (Return ret, S') \<Rightarrow>
        ret = 0 \<and> S' = S\<lparr>sent := sent S @ [reply Res_NO []]\<rparr> \<and> isNull (m_Pass (conn S)) \<and>
        isNull (stored_pass (store S) (m_Host (conn S)) (auth_user (conn S) u) c (env_check_of env))
    | _ \<Rightarrow> False"
proof -
  obtain t where t: "isNull (m_Pass (conn S)) \<or> m_Timeout (conn S) = Some t"
    using assms(1) by (cases "m_Timeout (conn S)") (auto simp: session_inv_def isNull_def)
  have "doCommand E (exec_msg c u opts env) S = run_exec E c u opts env S"
    using doCommand_msg [OF assms(2) parse_exec] assms(4-7) by simp
  then show ?thesis
    using assms(3) t by (auto simp: run_exec_def forked_def Let_def exec_job_def answers stored_pass_def qeq_def process_setup)
qed

theorem exec_uses_known_password_witness:
  "case doCommand (sample_env 0) (exec_msg ''ls'' ''root'' [] [''A=1'']) sample_login of
      Some (Child job, S') \<Rightarrow>
        m_command (job_proc job) = ''ls'' \<and> m_user (job_proc job) = ''root'' \<and>
        (job_pass job = m_Pass (conn sample_login) \<or>
         job_pass job = find (makeKey 0 (m_Host (conn sample_login)) (auth_user (conn sample_login) ''root'') ''ls'') (store sample_login) \<and>
         bytes_of (find (makeKey 2 (m_Host (conn sample_login)) (auth_user (conn sample_login) ''root'') ''ls'') (store sample_login)) =
           bytes_of (env_check_of [''A=1''])) \<and>
        \<not> isNull (job_pass job)
    | Some (Return ret, S') \<Rightarrow>
        ret = 0 \<and> S' = sample_login\<lparr>sent := sent sample_login @ [reply Res_NO []]\<rparr> \<and> isNull (m_Pass (conn sample_login)) \<and>
        isNull (stored_pass (store sample_login) (m_Host (conn sample_login)) (auth_user (conn sample_login) ''root'') ''ls''
          (env_check_of [''A=1'']))
    | _ \<Rightarrow> False"
  by (rule exec_uses_known_password) (simp_all add: sendable_def)

text \<open>
  C14. A password that EXEC stored can be used until its timeout and not afterwards: for the
  same host, user, command and environment it is found at once, and once the daemon has
  dropped what has expired at time \<open>now\<close> it is found exactly if \<open>now\<close> is earlier than the
  time of storing plus the timeout. (The clock is read twice, once for the environment and once
  for the password; with an empty environment only the second reading counts.)
\<close>

theorem password_lifetime:
  assumes "repo_inv r" and "0 < t" and "nat t + unat (env_time1 E) < 2 ^ 32" and "nat t + unat (env_time2 E) < 2 ^ 32"
    and "unat now < 2 ^ 32"
  shows "stored_pass (store_pass E h a c chk p t r) h a c chk = p \<and>
    stored_pass (snd (expire now (store_pass E h a c chk p t r))) h a c chk =
      (if unat now < nat t + unat (env_time2 E) \<and> (unat now < nat t + unat (env_time1 E) \<or> bytes_of chk = [])
       then p else None)"
proof -
  have "unat (unsigned_time now) = unat now"
    using assms(5) by (simp add: unsigned_time_def unsigned_ucast_eq take_bit_nat_eq_self)
  then show ?thesis
    using assms timeout_number [of t "env_time1 E"] timeout_number [of t "env_time2 E"]
    by (simp add: stored_pass_store_pass stored_pass_expired word_less_nat_alt)
qed

theorem password_lifetime_witness:
  "stored_pass (store_pass (sample_env 1) [] ''root'' ''ls'' None (Some ''secret'') 60 new_repository) [] ''root'' ''ls'' None = Some ''secret'' \<and>
    stored_pass (snd (expire 109 (store_pass (sample_env 1) [] ''root'' ''ls'' None (Some ''secret'') 60 new_repository))) [] ''root'' ''ls'' None = Some ''secret''"
  using password_lifetime [of new_repository 60 "sample_env 1" 109 "[]" "''root''" "''ls''" None "Some ''secret''"]
  by (simp add: sample_env_def)



text \<open>
  C16. The queries of the protocol do not see the passwords. For two repositories of the daemon
  with the same variables, which may differ in every password and stored environment, GET,
  GETK and CHKG give the same answers; and every line the daemon runs keeps the invariant that
  makes it so (only variables have a group).
\<close>

theorem queries_hide_passwords:
  assumes "vault_inv (store S)" and "vault_inv r" and "variables r = variables (store S)"
    and "peer_ok E S" and "sendable k"
    and "m = getVar_msg k \<or> m = getKeys_msg k \<or> m = findGroup_msg k"
  shows "map_option (\<lambda>(out, S'). (out, sent S')) (doCommand E m (S\<lparr>store := r\<rparr>)) =
      map_option (\<lambda>(out, S'). (out, sent S')) (doCommand E m S) \<and>
    (\<forall>line out S'. doCommand E line S = Some (out, S') \<longrightarrow> vault_inv (store S'))"
proof -
  obtain c where c: "parse m = Some c" "c = C_get k \<or> c = C_getk k \<or> c = C_chkg k"
    using assms(5,6) by (auto simp: parse_messages)
  have "peer_ok E (S\<lparr>store := r\<rparr>)" using assms(4) by (simp add: peer_ok_def)
  then have "doCommand E m (S\<lparr>store := r\<rparr>) = map_option (map_prod id (\<lambda>S'. S'\<lparr>store := r\<rparr>)) (doCommand E m S)"
    using doCommand_msg [of E _ m c] c query_variables [OF assms(1-3) c(2)] assms(4) by simp
  then have "map_option (\<lambda>(out, S'). (out, sent S')) (doCommand E m (S\<lparr>store := r\<rparr>)) =
      map_option (\<lambda>(out, S'). (out, sent S')) (doCommand E m S)"
    by (simp add: option.map_comp comp_def case_prod_unfold)
  then show ?thesis using vault_doCommand [OF _ assms(1)] by blast
qed

theorem queries_hide_passwords_witness:
  "map_option (\<lambda>(out, S'). (out, sent S')) (doCommand (sample_env 0) (getVar_msg ''x'')
      (sample_session\<lparr>store := store_pass (sample_env 0) [] ''root'' ''ls'' None (Some ''secret'') 60 new_repository\<rparr>)) =
    map_option (\<lambda>(out, S'). (out, sent S')) (doCommand (sample_env 0) (getVar_msg ''x'') sample_session)"
proof -
  let ?r = "store_pass (sample_env 0) [] ''root'' ''ls'' None (Some ''secret'') 60 new_repository"
  have vault: "vault_inv new_repository" by (simp add: vault_inv_def new_repository_def repo_inv_def)
  have "vault_inv (store sample_session)" "vault_inv ?r" "variables ?r = variables (store sample_session)"
    using vault vault_store_pass [OF vault] by (simp_all add: sample_session_def) code_simp
  from queries_hide_passwords [OF this, of "sample_env 0" "''x''" "getVar_msg ''x''"]
  show ?thesis by (simp add: sendable_def)
qed

section \<open>Variables\<close>





text \<open>
  C18. The names of a group: GETK on a group whose names have no separator byte, no NUL and fit a
  reply makes the client return names of that group's entries, in key order and without inventing
  any, and each name of the group is part of one of them; so all are there if none is a part of
  another. It is only a part, because the test for names that are already listed looks for the name
  anywhere in the listing: \<open>b\<close> is dropped after \<open>ab\<close>, although both are in the group. A
  variable called \<open>n-s\<close> is listed as \<open>n\<close>.
\<close>

theorem group_listing:
  assumes "peer_ok E S" and "sendable g" and "g \<noteq> []" and "0 \<le> sockfd d"
    and "\<forall>k \<in> set (group_names g ''-'' (repo (store S))). BEL \<notin> set k \<and> NUL \<notin> set k \<and> k \<noteq> []"
    and "length (findKeys g ''-'' (store S)) \<le> 1019" and "CHR ''-'' \<notin> set s"
  shows "(case doCommand E (getKeys_msg g) S of
      Some (Return ret, S') \<Rightarrow> ret = 0 \<and> store S' = store S \<and>
        (let listed = getKeys d (\<lambda>cmd. int (length cmd)) (recv_of (last (sent S'))) g;
             names = group_names g ''-'' (repo (store S))
         in subseq listed names \<and> (\<forall>n \<in> set names. \<exists>k \<in> set listed. sublist n k) \<and>
           ((\<forall>m \<in> set names. \<forall>n \<in> set names. sublist m n \<longrightarrow> m = n) \<longrightarrow> set listed = set names))
    | _ \<Rightarrow> False) \<and>
    key_name ''-'' (makeKey 1 (n @ ''-'' @ s) [] []) = n \<and>
    (let d = \<lparr>entry_value = Some ''v'', entry_group = ''g'', entry_timeout = 0\<rparr>;
         q = fst (add (makeKey 1 ''b-1'' [] []) d 50 (fst (add (makeKey 1 ''ab-1'' [] []) d 50 new_repository)))
     in group_names ''g'' ''-'' (repo q) = [''ab'', ''b''] \<and> findKeys ''g'' ''-'' q = ''ab'')"
proof (intro conjI)
  let ?names = "group_names g ''-'' (repo (store S))"
  obtain ks where ks: "findKeys g ''-'' (store S) = join_bel ks" "subseq ks ?names"
    "\<forall>k \<in> set ?names. sublist k (findKeys g ''-'' (store S))"
    by (rule findKeys_spec [OF assms(3)])
  have sub: "set ks \<subseteq> set ?names" by (auto elim: list_emb_set [OF ks(2)])
  let ?v = "findKeys g ''-'' (store S)"
  have run: "doCommand E (getKeys_msg g) S = Some (answer_value ?v S)"
    using doCommand_msg [OF assms(1) parse_getKeys [OF assms(2)]] by simp
  have listed: "getKeys d (\<lambda>cmd. int (length cmd)) (recv_of (if ?v \<noteq> [] then reply Res_OK ?v else reply Res_NO [])) g = ks"
    unfolding ks(1) by (rule getKeys_splits_listing) (use sub assms(4-6) ks(1) in auto)
  have part: "\<forall>n \<in> set ?names. \<exists>k \<in> set ks. sublist n k"
    using ks(1,3) assms(5) sublist_join_bel [of _ ks] by simp
  then have "(\<forall>m \<in> set ?names. \<forall>n \<in> set ?names. sublist m n \<longrightarrow> m = n) \<longrightarrow> set ks = set ?names"
    using sub by blast
  then show "case doCommand E (getKeys_msg g) S of
      Some (Return ret, S') \<Rightarrow> ret = 0 \<and> store S' = store S \<and>
        (let listed = getKeys d (\<lambda>cmd. int (length cmd)) (recv_of (last (sent S'))) g; names = ?names
         in subseq listed names \<and> (\<forall>n \<in> set names. \<exists>k \<in> set listed. sublist n k) \<and>
           ((\<forall>m \<in> set names. \<forall>n \<in> set names. sublist m n \<longrightarrow> m = n) \<longrightarrow> set listed = set names))
    | _ \<Rightarrow> False"
    using listed part ks(2) by (cases "?v = []") (simp_all add: run answer_value_def respond_def send_msg_def)
  show "key_name ''-'' (makeKey 1 (n @ ''-'' @ s) [] []) = n" by (rule key_name_makeKey [OF assms(7)])
  show "let d = \<lparr>entry_value = Some ''v'', entry_group = ''g'', entry_timeout = 0\<rparr>;
      q = fst (add (makeKey 1 ''b-1'' [] []) d 50 (fst (add (makeKey 1 ''ab-1'' [] []) d 50 new_repository)))
    in group_names ''g'' ''-'' (repo q) = [''ab'', ''b''] \<and> findKeys ''g'' ''-'' q = ''ab''"
    by code_simp
qed

theorem group_listing_witness:
  "(case doCommand (sample_env 0) (getKeys_msg ''grp'') (sample_session\<lparr>store := sample_repo\<rparr>) of
      Some (Return ret, S') \<Rightarrow> ret = 0 \<and> subseq (getKeys sample_client (\<lambda>cmd. int (length cmd)) (recv_of (last (sent S'))) ''grp'')
        (group_names ''grp'' ''-'' (repo sample_repo))
    | _ \<Rightarrow> False) \<and> key_name ''-'' (makeKey 1 (''kate'' @ ''-'' @ ''pw'') [] []) = ''kate''"
proof -
  have "list_all (\<lambda>k. BEL \<notin> set k \<and> NUL \<notin> set k \<and> k \<noteq> []) (group_names ''grp'' ''-'' (repo sample_repo)) \<and>
      length (findKeys ''grp'' ''-'' sample_repo) \<le> 1019" by code_simp
  moreover have "peer_ok (sample_env 0) (sample_session\<lparr>store := sample_repo\<rparr>)" using samples(1) by (simp add: peer_ok_def)
  ultimately show ?thesis
    using group_listing [of "sample_env 0" "sample_session\<lparr>store := sample_repo\<rparr>" "''grp''" sample_client "''pw''" "''kate''"]
    by (simp add: list_all_iff sendable_def sample_client_def Let_def split: option.splits prod.splits outcome.splits)
qed

text \<open>
  C19. Every message of the client library is understood by the daemon as the command it was
  written for, with exactly the arguments of the caller; \<open>sendable\<close> is the absence of the byte
  127 and \<open>sendable_num\<close> a non-negative \<^verbatim>\<open>int\<close>. A password with the byte 127 and a
  negative timeout make the daemon reject the message.
\<close>

theorem client_messages_understood:
  assumes "sendable a" and "sendable b" and "sendable c" and "list_all sendable env" and "sendable_num n"
  shows "parse (setPass_msg a n) = Some (C_pass a n) \<and> parse (setHost_msg a) = Some (C_host a) \<and>
    parse (setPriority_msg n) = Some (C_prio n) \<and> parse (setScheduler_msg n) = Some (C_sched n) \<and>
    parse (exec_msg a b c env) = Some (C_exec a b c env) \<and> parse (delCommand_msg a b) = Some (C_del a b) \<and>
    parse (setVar_msg a b n c) = Some (C_set a b c n) \<and> parse (getVar_msg a) = Some (C_get a) \<and>
    parse (getKeys_msg a) = Some (C_getk a) \<and> parse (findGroup_msg a) = Some (C_chkg a) \<and>
    parse (delVar_msg a) = Some (C_delv a) \<and> parse (delGroup_msg a) = Some (C_delg a) \<and>
    parse (delVars_msg a) = Some (C_dels a) \<and> parse ping_msg = Some C_ping \<and>
    parse exitCode_msg = Some C_exit \<and> parse stopServer_msg = Some C_stop \<and>
    parse (setPass_msg (a @ [DEL] @ b) n) = None \<and> parse (setVar_msg a b (- n - 1) c) = None"
  using assms parse_setPass_DEL [of "a @ [DEL] @ b" n] parse_setVar_negative [OF assms(1-3), of "- n - 1"]
  by (simp add: parse_messages) (simp add: sendable_def sendable_num_def)

theorem client_messages_understood_witness:
  "parse (exec_msg ''ls -l'' ''root'' ''x'' [''LANG=C'']) = Some (C_exec ''ls -l'' ''root'' ''x'' [''LANG=C'']) \<and>
    parse (setPass_msg (''ls -l'' @ [DEL] @ ''root'') 5) = None"
  using client_messages_understood [of "''ls -l''" "''root''" "''x''" "[''LANG=C'']" 5]
  by (simp add: sendable_def sendable_num_def int_max_def)

section \<open>The lexer\<close>

text \<open>
  C20. Quoting is undone by the lexer: reading a string quoted by the client gives a string
  token with the original bytes and leaves exactly what follows, if and only if the string does
  not hold the byte 127. So the test \<^verbatim>\<open>commandWithDoubleQuotes\<close> of \<^verbatim>\<open>kdesudtest.cpp\<close> passes, and
  would with any command and user without that byte, but with no other.
\<close>

theorem escape_roundtrip:
  "quoted_command c u = Some (DEL \<notin> set c \<and> DEL \<notin> set u) \<and> commandWithDoubleQuotes = Some True \<and>
    ((\<exists>l. lex (new_lexer (escape s @ r)) = Some (Tok_str, l) \<and> lval l = s \<and> rest l = r) \<longleftrightarrow> DEL \<notin> set s)"
proof -
  have w: "within (new_lexer (escape s @ r))" "rest (new_lexer (escape s @ r)) = escape s @ r"
    by (simp_all add: new_lexer_def rest_def within_def)
  from lex_ref_lex [OF w(1)] w(2) obtain t l where lx: "lex (new_lexer (escape s @ r)) = Some (t, l)"
    "ref_lex (escape s @ r) = (t, m_Output l, rest l)"
    by (auto simp: lexes_def)
  then have "(\<exists>l. lex (new_lexer (escape s @ r)) = Some (Tok_str, l) \<and> lval l = s \<and> rest l = r) \<longleftrightarrow> DEL \<notin> set s"
    using ref_lex_escape [of s r] ref_lex_escape_DEL [of s r] by (cases "DEL \<in> set s") (auto simp: lval_def)
  then show ?thesis by (simp add: quoted_command_iff commandWithDoubleQuotes_def)
qed

text \<open>
  C21. The lexer is total and makes progress: from any position up to the end of the input it
  returns a token, moves forward, and unless it reports \<^verbatim>\<open>Tok_none\<close> it is again at such a
  position; its token, value and position are those of the reference lexer, which is a
  function of the remaining bytes alone.
\<close>

theorem lex_matches_reference:
  assumes "within l"
  shows "\<exists>t l'. lex l = Some (t, l') \<and> ref_lex (rest l) = (t, lval l', rest l') \<and>
    m_Input l' = m_Input l \<and> lex_in l < lex_in l' \<and> (t \<noteq> Tok_none \<longrightarrow> within l')"
  using lex_ref_lex [OF assms] by (auto simp: lexes_def advanced_def lval_def)

theorem lex_matches_reference_witness:
  "\<exists>t l'. lex (new_lexer ''PING 12'') = Some (t, l') \<and> ref_lex (rest (new_lexer ''PING 12'')) = (t, lval l', rest l') \<and>
    m_Input l' = m_Input (new_lexer ''PING 12'') \<and> lex_in (new_lexer ''PING 12'') < lex_in l' \<and> (t \<noteq> Tok_none \<longrightarrow> within l')"
  by (rule lex_matches_reference) (simp add: within_def new_lexer_def)

section \<open>The repository\<close>

text \<open>
  C22. Expiration is exact: what is left are the entries whose time has not come, in value and
  timeout unchanged, the result is the number of the others, and the repository stays well
  formed. The shortcut over \<^verbatim>\<open>head_time\<close> never skips an entry that is due.
\<close>

theorem expire_exact:
  assumes "repo_inv r"
  shows "repo_map (snd (expire now r)) k =
      (case repo_map r k of
         None \<Rightarrow> None
       | Some e \<Rightarrow> if unsigned_time now < entry_timeout e then Some e else None) \<and>
    fst (expire now r) = int (length (filter (\<lambda>e. entry_timeout (snd e) \<le> unsigned_time now) (repo r))) \<and>
    repo_inv (snd (expire now r))"
  using expire_map [OF assms] expire_spec(2,3) [OF assms] by simp

theorem expire_exact_witness:
  "repo_map (snd (expire 110 sample_repo)) ''1*a-1**'' =
      (case repo_map sample_repo ''1*a-1**'' of
         None \<Rightarrow> None
       | Some e \<Rightarrow> if unsigned_time 110 < entry_timeout e then Some e else None) \<and>
    fst (expire 110 sample_repo) = int (length (filter (\<lambda>e. entry_timeout (snd e) \<le> unsigned_time 110) (repo sample_repo))) \<and>
    repo_inv (snd (expire 110 sample_repo))"
  by (rule expire_exact) simp

text \<open>
  C23. Storing and looking up: after \<^verbatim>\<open>add\<close> the key has the new value, group and absolute
  timeout and every other key what it had; after \<^verbatim>\<open>remove\<close> the key is gone and the result
  tells whether it was there. Both keep the repository well formed.
\<close>

theorem add_remove_find:
  assumes "repo_inv r" and "k \<noteq> []"
  shows "repo_map (fst (add k d now r)) =
      (repo_map r)(k \<mapsto> d\<lparr>entry_timeout := if entry_timeout d = 0 then - 1 else entry_timeout d + unsigned_time now\<rparr>) \<and>
    find k (fst (add k d now r)) = entry_value d \<and>
    repo_map (snd (remove k r)) = (repo_map r)(k := None) \<and>
    fst (remove k r) = (if repo_map r k = None then - 1 else 0) \<and>
    repo_inv (fst (add k d now r)) \<and> repo_inv (snd (remove k r))"
  using assms by (simp add: repo_add find_add repo_map_remove remove_result add_inv remove_inv absolute_timeout_def never_def)

theorem add_remove_find_witness:
  "find ''1*c'' (fst (add ''1*c'' \<lparr>entry_value = Some ''z'', entry_group = [], entry_timeout = 7\<rparr> 50 sample_repo)) = Some ''z'' \<and>
    fst (remove ''1*c'' sample_repo) = (if repo_map sample_repo ''1*c'' = None then - 1 else 0)"
  using add_remove_find [of sample_repo "''1*c''" "\<lparr>entry_value = Some ''z'', entry_group = [], entry_timeout = 7\<rparr>" 50] by simp

text \<open>
  C24. What is removed with a group: \<^verbatim>\<open>removeGroup\<close> removes the entries of that group and no
  others, and reports success exactly if there was one, which is what \<^verbatim>\<open>hasGroup\<close> had told;
  the empty group removes nothing. \<^verbatim>\<open>removeSpecialKey\<close> removes exactly the entries whose group is
  a prefix of the given string and whose key contains it. An entry without a group counts: a stored
  password is removed as soon as its key contains the string.
\<close>

theorem removals_exact:
  assumes "repo_inv r" and "s \<noteq> []"
  shows "repo (snd (removeGroup g r)) = filter (\<lambda>e. g = [] \<or> entry_group (snd e) \<noteq> g) (repo r) \<and>
    fst (removeGroup g r) = hasGroup g r \<and>
    (hasGroup g r = 0 \<longleftrightarrow> g \<noteq> [] \<and> list_ex (\<lambda>e. entry_group (snd e) = g) (repo r)) \<and>
    repo (snd (removeSpecialKey s r)) =
      filter (\<lambda>e. \<not> (prefix (entry_group (snd e)) s \<and> sublist s (fst e))) (repo r) \<and>
    (fst (removeSpecialKey s r) = 0 \<longleftrightarrow> repo (snd (removeSpecialKey s r)) \<noteq> repo r) \<and>
    (sublist s (makeKey 0 h a c) \<longrightarrow>
       repo_map (snd (removeSpecialKey s (fst (add (makeKey 0 h a c) \<lparr>entry_value = p, entry_group = [], entry_timeout = t\<rparr> now r))))
         (makeKey 0 h a c) = None) \<and>
    repo_inv (snd (removeGroup g r)) \<and> repo_inv (snd (removeSpecialKey s r))"
proof -
  let ?d = "\<lparr>entry_value = p, entry_group = [], entry_timeout = t\<rparr>"
  let ?r = "fst (add (makeKey 0 h a c) ?d now r)"
  have inv: "repo_inv ?r" "repo_inv (snd (removeSpecialKey s ?r))"
    using assms by (simp_all add: add_inv removeSpecialKey_inv)
  have "repo_map (snd (removeSpecialKey s ?r)) (makeKey 0 h a c) = None" if sub: "sublist s (makeKey 0 h a c)"
  proof (rule ccontr)
    assume "repo_map (snd (removeSpecialKey s ?r)) (makeKey 0 h a c) \<noteq> None"
    then obtain e where e: "(makeKey 0 h a c, e) \<in> set (repo (snd (removeSpecialKey s ?r)))"
      using qmap_find_iff [OF repo_inv_map [OF inv(2)]] by (auto simp: repo_map_def)
    then have "(makeKey 0 h a c, e) \<in> set (repo ?r)" "\<not> special_match s (makeKey 0 h a c, e)"
      using assms(2) by (auto simp: removeSpecialKey_spec(1) [OF inv(1)])
    moreover from this(1) have "repo_map ?r (makeKey 0 h a c) = Some e"
      using qmap_find_iff [OF repo_inv_map [OF inv(1)]] by (simp add: repo_map_def)
    ultimately show False using sub assms(1) by (auto simp: repo_add special_match_iff)
  qed
  moreover have "list_ex P xs \<longleftrightarrow> filter (\<lambda>e. \<not> P e) xs \<noteq> xs" for P and xs :: "(bytes \<times> data_entry) list"
    by (auto simp: filter_id_conv list_ex_iff)
  ultimately show ?thesis
    using assms removeSpecialKey_spec [OF assms(1), of s] removeGroup_spec [OF assms(1), of g]
    by (simp add: special_match_iff hasGroup_def in_group_def [abs_def])
qed

theorem removals_exact_witness:
  "repo (snd (removeGroup ''grp'' sample_repo)) = [] \<and> fst (removeGroup ''grp'' sample_repo) = 0 \<and>
    repo_map (snd (removeSpecialKey ''ls'' (fst (add (makeKey 0 [] ''root'' ''ls'')
      \<lparr>entry_value = Some ''secret'', entry_group = [], entry_timeout = 60\<rparr> 50 sample_repo)))) (makeKey 0 [] ''root'' ''ls'') = None"
proof -
  have "sublist ''ls'' (makeKey 0 [] ''root'' ''ls'')" "list_ex (\<lambda>e. entry_group (snd e) = ''grp'') (repo sample_repo)"
    "list_all (\<lambda>e. entry_group (snd e) = ''grp'') (repo sample_repo)" by code_simp+
  then show ?thesis
    using removals_exact [of sample_repo "''ls''" "''grp''" "[]" "''root''" "''ls''" "Some ''secret''" 60 50]
    by (simp add: list_all_iff filter_empty_conv)
qed

section \<open>Replies\<close>

text \<open>
  C25. One answer per command: a line that parses is answered with exactly one message, which
  is \<open>OK\<close> or \<open>NO\<close>, possibly with a value, and a newline, except that EXIT is answered only once
  the exit code is known (and then with it), and that the forked child answers nothing. A line
  that is rejected is answered with NO at most.
\<close>

theorem one_reply:
  assumes "peer_ok E S" and "session_inv S"
  shows "\<exists>out S'. doCommand E s S = Some (out, S') \<and>
    (case parse s of
       None \<Rightarrow> out = Return (-1) \<and> (sent S' = sent S \<or> sent S' = sent S @ [''NO'' @ [NL]])
     | Some C_exit \<Rightarrow> out = Return 0 \<and>
         sent S' = sent S @ (if m_hasExitCode (conn S) then [''OK '' @ setNum (m_exitCode (conn S)) @ [NL]] else [])
     | Some c \<Rightarrow>
         (case out of
            Child job \<Rightarrow> sent S' = sent S
          | _ \<Rightarrow> out \<noteq> Return (-1) \<and> (\<exists>ok v. sent S' = sent S @ [reply ok v])))"
proof (cases "parse s")
  case None
  then show ?thesis
    using refine_doCommand [of S E s] assms(1) by (auto simp: refines_def rejects_def peer_ok_def reply_def)
next
  case (Some c)
  obtain out S' where run: "run_command E c S = Some (out, S')" by (rule run_command_inv [OF assms(2)])
  then have cmd: "doCommand E s S = Some (out, S')" using doCommand_msg [OF assms(1) Some] by simp
  show ?thesis
  proof (cases "c = C_exit")
    case True
    then show ?thesis using Some run cmd by (auto simp: sendExitCode_def send_msg_def)
  next
    case False
    with run have "case out of Child job \<Rightarrow> sent S' = sent S
        | _ \<Rightarrow> out \<noteq> Return (-1) \<and> (\<exists>ok v. sent S' = sent S @ [reply ok v])"
      by (cases c; auto simp: answers run_exec_def forked_def Let_def split: if_splits prod.splits; blast)
    then show ?thesis using False Some cmd by (auto split: request.split)
  qed
qed

theorem one_reply_witness:
  "\<exists>out S'. doCommand (sample_env 0) ping_msg sample_session = Some (out, S') \<and> out \<noteq> Return (-1) \<and>
    (\<exists>ok v. sent S' = [reply ok v])"
proof -
  have "sent sample_session = []" by (simp add: sample_session_def)
  moreover have "parse ping_msg = Some C_ping" by (rule parse_simple)
  ultimately show ?thesis
    using one_reply [of "sample_env 0" sample_session ping_msg] doCommand_msg [of "sample_env 0" sample_session ping_msg C_ping]
    by (auto simp: answer_def)
qed

section \<open>Who is at the other end\<close>

text \<open>
  C31. The daemon serves only its own user: on every platform on which the kernel reports the
  peer, a connection whose reported user is another one, or for which nothing was reported, is
  turned down at its first line, before it is parsed, and nothing changes. (The daemon's own
  user number is not the reserved -1.)
\<close>

theorem other_user_rejected:
  assumes "pl \<noteq> Unsupported" and "env_getuid E \<noteq> - 1" and "\<forall>c. reported = Some c \<longrightarrow> cred_uid c \<noteq> env_getuid E"
    and "m_peer (conn S) = new_socket_security pl reported (env_getuid E)"
  shows "doCommand E line S = Some (Return (- 1), S)"
  using assms peerUid_me [OF assms(2), of pl reported] by (simp add: doCommand_def)

theorem other_user_rejected_witness:
  "doCommand (sample_env 0) ping_msg
      (sample_session\<lparr>conn := new_connection 9 (new_socket_security So_peercred (Some \<lparr>cred_pid = 5, cred_gid = 9, cred_uid = 1001\<rparr>) 1000)\<rparr>) =
    Some (Return (- 1),
      sample_session\<lparr>conn := new_connection 9 (new_socket_security So_peercred (Some \<lparr>cred_pid = 5, cred_gid = 9, cred_uid = 1001\<rparr>) 1000)\<rparr>)"
  by (rule other_user_rejected [where pl = So_peercred and reported = "Some \<lparr>cred_pid = 5, cred_gid = 9, cred_uid = 1001\<rparr>"])
    (simp_all add: sample_env_def new_connection_def)



end
